theory Spec2Isabelle
  imports Main "HOL-Library.Word"
begin

section \<open>Data model\<close>

text \<open>
  A Go string is a sequence of bytes; an Isabelle \<open>string\<close> is a list of \<open>char\<close>, and
  \<open>char\<close> has exactly the 256 values of a byte, read as a number by \<open>of_char\<close>.
  A Go \<open>[]byte\<close> (and \<open>net.HardwareAddr\<close>, \<open>net.IP\<close>) is a list of 8-bit words.
  The \<open>bytes.Buffer\<close> of a \<open>Packet\<close> is modelled by its contents.

  The package is \<open>pkg/magic/magic.go\<close> as its tests and the command-line tool use it
  (\<open>writeHeader\<close>, \<open>WriteMAC\<close>, \<open>SendUDP\<close>, \<open>getRAddr\<close>, \<open>getPort\<close>, \<open>SendMagic\<close>). The
  standard-library functions it calls are embedded from the Go 1.22 sources, the first
  release that compiles \<open>for range 6\<close>.
\<close>

type_synonym byte = "8 word"

record Packet =
  payload :: "byte list"

definition new_Packet :: Packet where
  "new_Packet = \<lparr>payload = []\<rparr>"

text \<open>
  Errors are values. \<open>AddrError\<close> and \<open>NumError\<close> are the standard library's
  \<open>net.AddrError{Err, Addr}\<close> and \<open>strconv.NumError{Func, Num, Err}\<close>; \<open>OpError\<close> stands
  for whatever error the operating system's network layer reports. The other constructors are
  the \<open>fmt.Errorf\<close> calls of \<open>magic.go\<close>, one constructor per format string, holding the
  formatted arguments (and the wrapped cause where the format has \<open>%w\<close>).
\<close>

datatype num_err = ErrSyntax | ErrRange

datatype error =
    AddrError string string
  | NumError string string num_err
  | OpError string
  | InvalidMAC string error
  | InvalidRemoteAddress string
  | InvalidPort string error
  | PortNotSupported int
  | PasswordNotSupported
  | Wrapped string error

section \<open>The standard library's \<open>net.ParseMAC\<close>\<close>

text \<open>
  \<open>WriteMAC\<close> delegates all parsing to \<open>net.ParseMAC\<close> (Go's \<open>net/mac.go\<close>, with the
  helpers \<open>xtoi\<close> and \<open>xtoi2\<close> of \<open>net/parse.go\<close>). They are embedded here statement by
  statement.
\<close>

definition in_range :: "char \<Rightarrow> char \<Rightarrow> char \<Rightarrow> bool" where
  "in_range lo c hi \<longleftrightarrow> (of_char lo :: nat) \<le> of_char c \<and> (of_char c :: nat) \<le> of_char hi"

definition big :: nat where
  "big = 0xFFFFFF"

text \<open>
  \<open>xtoi(s)\<close>: hexadecimal to integer; returns the number, the characters consumed and
  success. \<open>xtoi_from cs n i\<close> is the loop at index \<open>i\<close> with \<open>cs = s[i:]\<close>. The accumulator
  stays below \<open>big\<close>, so Go's \<open>int\<close> never overflows.
\<close>

fun xtoi_from :: "string \<Rightarrow> nat \<Rightarrow> nat \<Rightarrow> nat \<times> nat \<times> bool" where
  "xtoi_from [] n i = (if i = 0 then (0, i, False) else (n, i, True))"
| "xtoi_from (c # cs) n i =
    (if in_range (CHR ''0'') c (CHR ''9'') then
       (let n' = n * 16 + (of_char c - of_char (CHR ''0'')) in
        if n' \<ge> big then (0, i, False) else xtoi_from cs n' (i + 1))
     else if in_range (CHR ''a'') c (CHR ''f'') then
       (let n' = n * 16 + (of_char c - of_char (CHR ''a'')) + 10 in
        if n' \<ge> big then (0, i, False) else xtoi_from cs n' (i + 1))
     else if in_range (CHR ''A'') c (CHR ''F'') then
       (let n' = n * 16 + (of_char c - of_char (CHR ''A'')) + 10 in
        if n' \<ge> big then (0, i, False) else xtoi_from cs n' (i + 1))
     else (if i = 0 then (0, i, False) else (n, i, True)))"

definition xtoi :: "string \<Rightarrow> nat \<times> nat \<times> bool" where
  "xtoi s = xtoi_from s 0 0"

text \<open>
  \<open>xtoi2(s, e)\<close>: the next two hex digits of \<open>s\<close> as a byte; when \<open>s\<close> is longer than two
  bytes its third byte must be \<open>e\<close>. (\<open>s[:2]\<close> needs \<open>len(s) \<ge> 2\<close>; \<open>ParseMAC\<close> only
  passes such strings.)
\<close>

definition xtoi2 :: "string \<Rightarrow> char \<Rightarrow> byte \<times> bool" where
  "xtoi2 s e =
    (if length s > 2 \<and> s ! 2 \<noteq> e then (0, False)
     else (case xtoi (take 2 s) of (n, ei, ok) \<Rightarrow> (of_nat n, ok \<and> ei = 2)))"

text \<open>
  The loop of the colon/hyphen branch, \<open>for x, i := 0, 0; i < n; i++\<close>, with the number of
  remaining iterations \<open>n - i\<close> as the recursion argument; \<open>None\<close> is \<open>goto error\<close>.
\<close>

fun colon_octets :: "string \<Rightarrow> nat \<Rightarrow> nat \<Rightarrow> byte list option" where
  "colon_octets s 0 x = Some []"
| "colon_octets s (Suc k) x =
    (case xtoi2 (drop x s) (s ! 2) of
       (b, ok) \<Rightarrow>
         if \<not> ok then None
         else map_option (\<lambda>hw. b # hw) (colon_octets s k (x + 3)))"

text \<open>The loop of the dotted branch, \<open>for x, i := 0, 0; i < n; i += 2\<close>.\<close>

fun dot_octets :: "string \<Rightarrow> nat \<Rightarrow> nat \<Rightarrow> byte list option" where
  "dot_octets s 0 x = Some []"
| "dot_octets s (Suc k) x =
    (case xtoi2 (take 2 (drop x s)) (CHR 0x00) of
       (b0, ok0) \<Rightarrow>
         if \<not> ok0 then None
         else (case xtoi2 (drop (x + 2) s) (s ! 4) of
           (b1, ok1) \<Rightarrow>
             if \<not> ok1 then None
             else map_option (\<lambda>hw. b0 # b1 # hw) (dot_octets s k (x + 5))))"

definition ParseMAC :: "string \<Rightarrow> error + byte list" where
  "ParseMAC s =
    (let bad = Inl (AddrError ''invalid MAC address'' s) in
     if length s < 14 then bad
     else if s ! 2 = CHR '':'' \<or> s ! 2 = CHR ''-'' then
       (if (length s + 1) mod 3 \<noteq> 0 then bad
        else
          let n = (length s + 1) div 3 in
          if n \<noteq> 6 \<and> n \<noteq> 8 \<and> n \<noteq> 20 then bad
          else (case colon_octets s n 0 of None \<Rightarrow> bad | Some hw \<Rightarrow> Inr hw))
     else if s ! 4 = CHR ''.'' then
       (if (length s + 1) mod 5 \<noteq> 0 then bad
        else
          let n = 2 * (length s + 1) div 5 in
          if n \<noteq> 6 \<and> n \<noteq> 8 \<and> n \<noteq> 20 then bad
          else (case dot_octets s (n div 2) 0 of None \<Rightarrow> bad | Some hw \<Rightarrow> Inr hw))
     else bad)"

section \<open>The packet builder\<close>

definition WriteByte :: "byte \<Rightarrow> Packet \<Rightarrow> Packet" where
  "WriteByte c p = p\<lparr>payload := payload p @ [c]\<rparr>"

definition Write :: "byte list \<Rightarrow> Packet \<Rightarrow> Packet" where
  "Write b p = p\<lparr>payload := payload p @ b\<rparr>"

text \<open>\<open>writeHeader\<close>: \<open>for range 6 { p.payload.WriteByte(0xFF) }\<close>.\<close>

definition writeHeader :: "Packet \<Rightarrow> Packet" where
  "writeHeader p = (WriteByte 0xFF ^^ 6) p"

text \<open>
  \<open>WriteMAC\<close> mutates the packet through its pointer and returns an error; the model returns
  the error (\<open>None\<close> is \<open>nil\<close>) together with the packet as the call leaves it.
\<close>

definition WriteMAC :: "Packet \<Rightarrow> string \<Rightarrow> error option \<times> Packet" where
  "WriteMAC p addr =
    (case ParseMAC addr of
       Inl err \<Rightarrow> (Some (InvalidMAC addr err), p)
     | Inr hwAddr \<Rightarrow> (None, (Write hwAddr ^^ 16) p))"

section \<open>The standard library's \<open>strconv.Atoi\<close>\<close>

text \<open>
  \<open>getPort\<close> parses the port with \<open>strconv.Atoi\<close> (Go's \<open>strconv/atoi.go\<close>), embedded
  here for a 64-bit \<open>int\<close> and for the only arguments it is called with: \<open>ParseInt(s, 10, 0)\<close>
  and so \<open>ParseUint(s, 10, 0)\<close>.
\<close>

definition intSize :: nat where
  "intSize = 64"

definition syntaxError :: "string \<Rightarrow> string \<Rightarrow> error" where
  "syntaxError fn str = NumError fn str ErrSyntax"

definition rangeError :: "string \<Rightarrow> string \<Rightarrow> error" where
  "rangeError fn str = NumError fn str ErrRange"

text \<open>
  The fast path's loop: \<open>ch -= '0'\<close> wraps around in a byte, so \<open>ch > 9\<close> rejects every
  character that is not a decimal digit. \<open>None\<close> is the syntax error. At most 18 digits are
  read, so \<open>n\<close> stays below \<open>10^18\<close> and Go's \<open>int\<close> does not overflow.
\<close>

fun atoi_fast :: "string \<Rightarrow> int \<Rightarrow> int option" where
  "atoi_fast [] n = Some n"
| "atoi_fast (c # cs) n =
    (let ch = (of_char c :: byte) - of_char (CHR ''0'') in
     if ch > 9 then None else atoi_fast cs (n * 10 + uint ch))"

definition lower :: "byte \<Rightarrow> byte" where
  "lower c = or c (of_char (CHR ''x'') - of_char (CHR ''X''))"

definition maxUint64 :: nat where
  "maxUint64 = 2 ^ 64 - 1"

text \<open>
  The loop of \<open>ParseUint\<close> for base 10 (so \<open>base0\<close> is false and an underscore is a syntax
  error) and bit size 64: the running value \<open>n\<close> is a \<open>uint64\<close>, and \<open>n + d\<close> wraps around.
  The result is the pair Go returns: the value and the error.
\<close>

fun parseUint_loop :: "string \<Rightarrow> nat \<Rightarrow> nat \<times> num_err option" where
  "parseUint_loop [] n = (n, None)"
| "parseUint_loop (ch # cs) n =
    (let c = (of_char ch :: byte) in
     if of_char (CHR ''0'') \<le> c \<and> c \<le> of_char (CHR ''9'') then
       (let d = c - of_char (CHR ''0'') in
        if d \<ge> 10 then (0, Some ErrSyntax)
        else if n \<ge> maxUint64 div 10 + 1 then (maxUint64, Some ErrRange)
        else
          (let n10 = n * 10; n1 = (n10 + unat d) mod 2 ^ 64 in
           if n1 < n10 \<or> n1 > maxUint64 then (maxUint64, Some ErrRange)
           else parseUint_loop cs n1))
     else if of_char (CHR ''a'') \<le> lower c \<and> lower c \<le> of_char (CHR ''z'') then
       (let d = lower c - of_char (CHR ''a'') + 10 in
        if d \<ge> 10 then (0, Some ErrSyntax)
        else if n \<ge> maxUint64 div 10 + 1 then (maxUint64, Some ErrRange)
        else
          (let n10 = n * 10; n1 = (n10 + unat d) mod 2 ^ 64 in
           if n1 < n10 \<or> n1 > maxUint64 then (maxUint64, Some ErrRange)
           else parseUint_loop cs n1))
     else (0, Some ErrSyntax))"

definition ParseUint :: "string \<Rightarrow> nat \<times> num_err option" where
  "ParseUint s = (if s = [] then (0, Some ErrSyntax) else parseUint_loop s 0)"

text \<open>
  \<open>ParseInt(s, 10, 0)\<close>: the sign, then \<open>ParseUint\<close>, then the range check against
  \<open>cutoff = 1 << 63\<close>. \<open>int64(un)\<close> and the negation are in two's complement.
\<close>

definition int64 :: "nat \<Rightarrow> int" where
  "int64 un = (if un < 2 ^ 63 then int un else int un - 2 ^ 64)"

definition neg64 :: "int \<Rightarrow> int" where
  "neg64 n = (if n = - (2 ^ 63) then n else - n)"

definition ParseInt :: "string \<Rightarrow> int \<times> num_err option" where
  "ParseInt s0 =
    (if s0 = [] then (0, Some ErrSyntax)
     else
       let neg = (s0 ! 0 = CHR ''-'');
           s = (if s0 ! 0 = CHR ''+'' \<or> s0 ! 0 = CHR ''-'' then drop 1 s0 else s0);
           (un, err) = ParseUint s;
           cutoff = 2 ^ (intSize - 1)
       in
         if err \<noteq> None \<and> err \<noteq> Some ErrRange then (0, err)
         else if \<not> neg \<and> un \<ge> cutoff then (int cutoff - 1, Some ErrRange)
         else if neg \<and> un > cutoff then (- int cutoff, Some ErrRange)
         else (if neg then neg64 (int64 un) else int64 un, None))"

definition Atoi :: "string \<Rightarrow> error + int" where
  "Atoi s0 =
    (let sLen = length s0 in
     if intSize = 32 \<and> (0 < sLen \<and> sLen < 10) \<or> intSize = 64 \<and> (0 < sLen \<and> sLen < 19) then
       (let s = (if s0 ! 0 = CHR ''-'' \<or> s0 ! 0 = CHR ''+'' then drop 1 s0 else s0) in
        if (s0 ! 0 = CHR ''-'' \<or> s0 ! 0 = CHR ''+'') \<and> length s < 1
        then Inl (syntaxError ''Atoi'' s0)
        else (case atoi_fast s 0 of
                None \<Rightarrow> Inl (syntaxError ''Atoi'' s0)
              | Some n \<Rightarrow> Inr (if s0 ! 0 = CHR ''-'' then - n else n)))
     else (case ParseInt s0 of
             (i64, Some e) \<Rightarrow> Inl (NumError ''Atoi'' s0 e)
           | (i64, None) \<Rightarrow> Inr i64))"

section \<open>Port resolution\<close>

definition acceptedPorts :: "int list" where
  "acceptedPorts = [0, 7, 9]"

definition defaultPort :: int where
  "defaultPort = 9"

definition getPort :: "string \<Rightarrow> error + int" where
  "getPort port =
    (if port = [] then Inr defaultPort
     else (case Atoi port of
             Inl err \<Rightarrow> Inl (InvalidPort port err)
           | Inr portNum \<Rightarrow>
               (case find (\<lambda>validPort. portNum = validPort) acceptedPorts of
                  Some validPort \<Rightarrow> Inr portNum
                | None \<Rightarrow> Inl (PortNotSupported portNum))))"

section \<open>The standard library's \<open>net.ParseIP\<close>\<close>

text \<open>
  \<open>getRAddr\<close> parses the address with \<open>net.ParseIP\<close>, which is \<open>netip.ParseAddr\<close>
  (Go's \<open>net/netip/netip.go\<close>) followed by \<open>As16\<close>, refusing an address with a zone. A
  \<open>net.IP\<close> is a byte slice; \<open>net.IPv4\<close> and \<open>ParseIP\<close> both return the 16-byte form,
  an IPv4 address behind the prefix \<open>v4InV6Prefix\<close>.
\<close>

type_synonym IP = "byte list"

definition v4InV6Prefix :: "byte list" where
  "v4InV6Prefix = [0, 0, 0, 0, 0, 0, 0, 0, 0, 0, 0xff, 0xff]"

definition IPv4 :: "byte \<Rightarrow> byte \<Rightarrow> byte \<Rightarrow> byte \<Rightarrow> IP" where
  "IPv4 a b c d = v4InV6Prefix @ [a, b, c, d]"

text \<open>
  \<open>parseIPv4(s)\<close>: the loop over \<open>i\<close>, with \<open>cs = s[i:]\<close>; \<open>None\<close> is a parse error.
  \<open>val\<close> never exceeds 255 when it is stored, so \<open>uint8(val)\<close> loses nothing.
\<close>

fun parseIPv4_loop ::
  "string \<Rightarrow> string \<Rightarrow> nat \<Rightarrow> nat \<Rightarrow> nat \<Rightarrow> nat \<Rightarrow> byte list \<Rightarrow> byte list option" where
  "parseIPv4_loop s [] i val pos digLen flds =
    (if pos < 3 then None else Some (flds[3 := of_nat val]))"
| "parseIPv4_loop s (c # cs) i val pos digLen flds =
    (if in_range (CHR ''0'') c (CHR ''9'') then
       (if digLen = 1 \<and> val = 0 then None
        else
          let val' = val * 10 + of_char c - of_char (CHR ''0'') in
          if val' > 255 then None
          else parseIPv4_loop s cs (i + 1) val' pos (digLen + 1) flds)
     else if c = CHR ''.'' then
       (if i = 0 \<or> i = length s - 1 \<or> s ! (i - 1) = CHR ''.'' then None
        else if pos = 3 then None
        else parseIPv4_loop s cs (i + 1) 0 (pos + 1) 0 (flds[pos := of_nat val]))
     else None)"

definition parseIPv4 :: "string \<Rightarrow> byte list option" where
  "parseIPv4 s = parseIPv4_loop s s 0 0 0 0 [0, 0, 0, 0]"

text \<open>
  The hex-number loop inside \<open>parseIPv6\<close>: returns the offset \<open>off\<close> where it stopped and
  the accumulated value, or \<open>None\<close> for a group of more than four digits or a value above
  \<open>0xFFFF\<close>.
\<close>

fun hex_group :: "string \<Rightarrow> nat \<Rightarrow> nat \<Rightarrow> (nat \<times> nat) option" where
  "hex_group [] off acc = Some (off, acc)"
| "hex_group (c # cs) off acc =
    (if in_range (CHR ''0'') c (CHR ''9'') then
       (let acc' = acc * 16 + (of_char c - of_char (CHR ''0'')) in
        if off > 3 then None else if acc' > 0xFFFF then None else hex_group cs (off + 1) acc')
     else if in_range (CHR ''a'') c (CHR ''f'') then
       (let acc' = acc * 16 + (of_char c - of_char (CHR ''a'') + 10) in
        if off > 3 then None else if acc' > 0xFFFF then None else hex_group cs (off + 1) acc')
     else if in_range (CHR ''A'') c (CHR ''F'') then
       (let acc' = acc * 16 + (of_char c - of_char (CHR ''A'') + 10) in
        if off > 3 then None else if acc' > 0xFFFF then None else hex_group cs (off + 1) acc')
     else Some (off, acc))"

text \<open>
  The main loop of \<open>parseIPv6\<close>, \<open>for i < 16\<close>, on the state \<open>(s, i, ip, ellipsis)\<close>; it
  returns the state at the loop's exit, or \<open>None\<close> for a parse error. \<open>ellipsis\<close> is
  \<open>-1\<close> until a \<open>::\<close> is seen.
\<close>

function parseIPv6_loop ::
  "string \<Rightarrow> nat \<Rightarrow> byte list \<Rightarrow> int \<Rightarrow> (string \<times> nat \<times> byte list \<times> int) option" where
  "parseIPv6_loop s i ip ellipsis =
    (if \<not> i < 16 then Some (s, i, ip, ellipsis)
     else (case hex_group s 0 0 of
       None \<Rightarrow> None
     | Some (off, acc) \<Rightarrow>
         if off = 0 then None
         else if off < length s \<and> s ! off = CHR ''.'' then
           (if ellipsis < 0 \<and> i \<noteq> 12 then None
            else if i + 4 > 16 then None
            else (case parseIPv4 s of
              None \<Rightarrow> None
            | Some ip4 \<Rightarrow>
                Some ([], i + 4,
                  ip[i := ip4 ! 0, i + 1 := ip4 ! 1, i + 2 := ip4 ! 2, i + 3 := ip4 ! 3],
                  ellipsis)))
         else if drop off s = [] then
           Some ([], i + 2, ip[i := of_nat (acc div 256), i + 1 := of_nat acc], ellipsis)
         else if drop off s ! 0 \<noteq> CHR '':'' then None
         else if length (drop off s) = 1 then None
         else if drop (off + 1) s ! 0 = CHR '':'' then
           (if ellipsis \<ge> 0 then None
            else if drop (off + 2) s = [] then
              Some ([], i + 2, ip[i := of_nat (acc div 256), i + 1 := of_nat acc], int (i + 2))
            else parseIPv6_loop (drop (off + 2) s) (i + 2)
                   (ip[i := of_nat (acc div 256), i + 1 := of_nat acc]) (int (i + 2)))
         else parseIPv6_loop (drop (off + 1) s) (i + 2)
                (ip[i := of_nat (acc div 256), i + 1 := of_nat acc]) ellipsis))"
  by pat_completeness auto
termination
  by (relation "measure (\<lambda>(s, i, ip, ellipsis). 16 - i)") auto

text \<open>
  \<open>parseIPv6(in)\<close>: the zone is split off at the first \<open>%\<close>, a leading \<open>::\<close> is taken,
  the loop runs, and the ellipsis is expanded by the two closing loops (bytes moved up from
  \<open>j = i - 1\<close> down to \<open>ellipsis\<close>, then the gap zeroed). The result is the pair of
  \<open>As16()\<close> and \<open>Zone()\<close> of the parsed \<open>Addr\<close>.
\<close>

type_synonym Addr = "byte list \<times> string"

definition IndexByteString :: "string \<Rightarrow> char \<Rightarrow> int" where
  "IndexByteString s c =
    (if c \<in> set s then int (length (takeWhile (\<lambda>x. x \<noteq> c) s)) else - 1)"

definition expand_ellipsis :: "byte list \<Rightarrow> nat \<Rightarrow> nat \<Rightarrow> byte list" where
  "expand_ellipsis ip i ellipsis =
    (let n = 16 - i;
         moved = fold (\<lambda>j ip. ip[j + n := ip ! j]) (rev [ellipsis..<i]) ip
     in fold (\<lambda>j ip. ip[j := 0]) (rev [ellipsis..<ellipsis + n]) moved)"

definition parseIPv6 :: "string \<Rightarrow> Addr option" where
  "parseIPv6 in_str =
    (let pct = IndexByteString in_str (CHR ''%'');
         has_zone = (pct \<noteq> - 1);
         s = (if has_zone then take (nat pct) in_str else in_str);
         zone = (if has_zone then drop (nat pct + 1) in_str else [])
     in
       if has_zone \<and> zone = [] then None
       else
         let lead = (length s \<ge> 2 \<and> s ! 0 = CHR '':'' \<and> s ! 1 = CHR '':'');
             ellipsis = (if lead then 0 else - 1);
             s = (if lead then drop 2 s else s)
         in
           if lead \<and> s = [] then Some (replicate 16 0, zone)
           else (case parseIPv6_loop s 0 (replicate 16 0) ellipsis of
             None \<Rightarrow> None
           | Some (s, i, ip, ellipsis) \<Rightarrow>
               if s \<noteq> [] then None
               else if i < 16 then
                 (if ellipsis < 0 then None
                  else Some (expand_ellipsis ip i (nat ellipsis), zone))
               else if ellipsis \<ge> 0 then None
               else Some (ip, zone)))"

text \<open>\<open>netip.ParseAddr\<close>: the first \<open>.\<close>, \<open>:\<close> or \<open>%\<close> of the text decides.\<close>

fun ParseAddr_scan :: "string \<Rightarrow> string \<Rightarrow> Addr option" where
  "ParseAddr_scan s [] = None"
| "ParseAddr_scan s (c # cs) =
    (if c = CHR ''.'' then map_option (\<lambda>flds. (v4InV6Prefix @ flds, [])) (parseIPv4 s)
     else if c = CHR '':'' then parseIPv6 s
     else if c = CHR ''%'' then None
     else ParseAddr_scan s cs)"

definition ParseAddr :: "string \<Rightarrow> Addr option" where
  "ParseAddr s = ParseAddr_scan s s"

text \<open>\<open>net.ParseIP\<close>: \<open>None\<close> is the \<open>nil\<close> address.\<close>

definition ParseIP :: "string \<Rightarrow> IP option" where
  "ParseIP s =
    (case ParseAddr s of
       None \<Rightarrow> None
     | Some (ip16, zone) \<Rightarrow> if zone \<noteq> [] then None else Some ip16)"

section \<open>Destination resolution\<close>

definition getRAddr :: "string \<Rightarrow> error + IP" where
  "getRAddr addr =
    (if addr = [] then Inr (IPv4 255 255 255 255)
     else (case ParseIP addr of
             None \<Rightarrow> Inl (InvalidRemoteAddress addr)
           | Some rAddr \<Rightarrow> Inr rAddr))"

section \<open>The transmitter\<close>

text \<open>
  The network is the only effect of the package. It is modelled by what a call can observe
  of it and by what it does to it: \<open>dial\<close> and \<open>conn_write\<close> say whether
  \<open>net.DialUDP("udp4", nil, &raddr)\<close> and \<open>conn.Write(b)\<close> fail (\<open>None\<close> is \<open>nil\<close>), and
  every call returns the list of network operations it performed, in order, each with its
  outcome. A failed \<open>DialUDP\<close> returns no connection, so nothing is written or closed after
  it; \<open>defer conn.Close()\<close> runs on every return after a successful dial. The deferred call
  discards what \<open>Close\<close> returns, and so does the trace.
\<close>

record UDPAddr =
  IP :: IP
  Port :: int

record network =
  dial :: "UDPAddr \<Rightarrow> error option"
  conn_write :: "UDPAddr \<Rightarrow> byte list \<Rightarrow> error option"

datatype event =
    DialUDP UDPAddr "error option"
  | ConnWrite UDPAddr "byte list" "error option"
  | ConnClose UDPAddr

definition SendUDP :: "network \<Rightarrow> Packet \<Rightarrow> string \<Rightarrow> string \<Rightarrow> error option \<times> event list" where
  "SendUDP nw p ip port =
    (case getRAddr ip of
       Inl err \<Rightarrow> (Some (Wrapped ''parse remote IP'' err), [])
     | Inr remoteIP \<Rightarrow>
         (case getPort port of
            Inl err \<Rightarrow> (Some (Wrapped ''parse port'' err), [])
          | Inr remotePort \<Rightarrow>
              (let raddr = \<lparr>IP = remoteIP, Port = remotePort\<rparr> in
               case dial nw raddr of
                 Some err \<Rightarrow> (Some (Wrapped ''dial UDP'' err), [DialUDP raddr (Some err)])
               | None \<Rightarrow>
                   (case conn_write nw raddr (payload p) of
                      Some err \<Rightarrow>
                        (Some (Wrapped ''write UDP packet'' err),
                         [DialUDP raddr None, ConnWrite raddr (payload p) (Some err),
                          ConnClose raddr])
                    | None \<Rightarrow>
                        (None,
                         [DialUDP raddr None, ConnWrite raddr (payload p) None,
                          ConnClose raddr])))))"

section \<open>Orchestration\<close>

definition SendMagic ::
  "network \<Rightarrow> string \<Rightarrow> string \<Rightarrow> string \<Rightarrow> string \<Rightarrow> error option \<times> event list" where
  "SendMagic nw macAddr passwd ip port =
    (let pk = new_Packet in
     if passwd = [] then
       (case WriteMAC (writeHeader pk) macAddr of
          (Some err, pk) \<Rightarrow> (Some (Wrapped ''write MAC address'' err), [])
        | (None, pk) \<Rightarrow>
            (case SendUDP nw pk ip port of
               (Some err, evs) \<Rightarrow> (Some (Wrapped ''send UDP'' err), evs)
             | (None, evs) \<Rightarrow> (None, evs)))
     else (Some PasswordNotSupported, []))"

section \<open>Notions used to state the properties\<close>

subsection \<open>Reading a trace of network operations\<close>

text \<open>
  \<open>unreleased evs\<close> counts the sockets a trace opened and did not close;
  \<open>datagrams evs\<close> lists what was handed to \<open>conn.Write\<close>, in order.
\<close>

fun unreleased :: "event list \<Rightarrow> int" where
  "unreleased [] = 0"
| "unreleased (DialUDP a None # evs) = unreleased evs + 1"
| "unreleased (DialUDP a (Some e) # evs) = unreleased evs"
| "unreleased (ConnWrite a b r # evs) = unreleased evs"
| "unreleased (ConnClose a # evs) = unreleased evs - 1"

fun datagrams :: "event list \<Rightarrow> (UDPAddr \<times> byte list) list" where
  "datagrams [] = []"
| "datagrams (ConnWrite a b r # evs) = (a, b) # datagrams evs"
| "datagrams (DialUDP a r # evs) = datagrams evs"
| "datagrams (ConnClose a # evs) = datagrams evs"

text \<open>
  The errors of the transmission itself, as the caller of \<open>SendUDP\<close> sees them: the two
  \<open>fmt.Errorf\<close> wrappers around what \<open>DialUDP\<close> and \<open>Write\<close> report.
\<close>

fun transmission_failure :: "error \<Rightarrow> bool" where
  "transmission_failure (Wrapped m e) \<longleftrightarrow> m = ''dial UDP'' \<or> m = ''write UDP packet''"
| "transmission_failure e \<longleftrightarrow> False"

text \<open>Three networks for concrete runs: one that works, one that cannot dial, one that cannot write.\<close>

definition ok_net :: network where
  "ok_net = \<lparr>dial = (\<lambda>a. None), conn_write = (\<lambda>a b. None)\<rparr>"

definition unreachable_net :: network where
  "unreachable_net =
    \<lparr>dial = (\<lambda>a. Some (OpError ''connect: network is unreachable'')),
     conn_write = (\<lambda>a b. None)\<rparr>"

definition write_fail_net :: network where
  "write_fail_net =
    \<lparr>dial = (\<lambda>a. None),
     conn_write = (\<lambda>a b. Some (OpError ''sendto: permission denied''))\<rparr>"

subsection \<open>The six-octet textual forms of a MAC address\<close>

text \<open>
  The textual forms the specification accepts: six pairs of hexadecimal digits (either
  case), separated by colons throughout or by hyphens throughout; \<open>mac48_octets\<close> is the
  address such a text denotes.
\<close>

definition is_hex :: "char \<Rightarrow> bool" where
  "is_hex c \<longleftrightarrow>
     in_range (CHR ''0'') c (CHR ''9'') \<or> in_range (CHR ''a'') c (CHR ''f'') \<or>
     in_range (CHR ''A'') c (CHR ''F'')"

definition hexval :: "char \<Rightarrow> nat" where
  "hexval c =
    (if in_range (CHR ''0'') c (CHR ''9'') then of_char c - of_char (CHR ''0'')
     else if in_range (CHR ''a'') c (CHR ''f'') then of_char c - of_char (CHR ''a'') + 10
     else of_char c - of_char (CHR ''A'') + 10)"

definition octet :: "char \<Rightarrow> char \<Rightarrow> byte" where
  "octet a b = of_nat (hexval a * 16 + hexval b)"

definition mac48_text :: "string \<Rightarrow> bool" where
  "mac48_text s \<longleftrightarrow>
     length s = 17 \<and> (s ! 2 = CHR '':'' \<or> s ! 2 = CHR ''-'') \<and>
     list_all (\<lambda>i. s ! i = s ! 2) [5, 8, 11, 14] \<and>
     list_all (\<lambda>i. is_hex (s ! i)) [0, 1, 3, 4, 6, 7, 9, 10, 12, 13, 15, 16]"

definition mac48_octets :: "string \<Rightarrow> byte list" where
  "mac48_octets s = map (\<lambda>i. octet (s ! i) (s ! (i + 1))) [0, 3, 6, 9, 12, 15]"

subsection \<open>Decimal integers as text\<close>

text \<open>
  What it means for a text to be a decimal integer: one or more decimal digits, after an
  optional sign; \<open>int_value\<close> is the integer it denotes and \<open>in_int64\<close> the range of a
  64-bit \<open>int\<close>.
\<close>

definition is_digit :: "char \<Rightarrow> bool" where
  "is_digit c \<longleftrightarrow> in_range (CHR ''0'') c (CHR ''9'')"

definition digit_val :: "char \<Rightarrow> nat" where
  "digit_val c = of_char c - of_char (CHR ''0'')"

definition decimal_from :: "nat \<Rightarrow> string \<Rightarrow> nat" where
  "decimal_from n ds = foldl (\<lambda>n c. n * 10 + digit_val c) n ds"

definition decimal :: "string \<Rightarrow> nat" where
  "decimal ds = decimal_from 0 ds"

definition signed :: "string \<Rightarrow> bool" where
  "signed s \<longleftrightarrow> s \<noteq> [] \<and> (hd s = CHR ''+'' \<or> hd s = CHR ''-'')"

definition unsigned :: "string \<Rightarrow> string" where
  "unsigned s = (if signed s then tl s else s)"

definition int_value :: "string \<Rightarrow> int" where
  "int_value s =
    (if s \<noteq> [] \<and> hd s = CHR ''-'' then - int (decimal (unsigned s))
     else int (decimal (unsigned s)))"

definition int_text :: "string \<Rightarrow> int \<Rightarrow> bool" where
  "int_text s n \<longleftrightarrow> unsigned s \<noteq> [] \<and> list_all is_digit (unsigned s) \<and> n = int_value s"

definition in_int64 :: "int \<Rightarrow> bool" where
  "in_int64 n \<longleftrightarrow> - (2 ^ 63) \<le> n \<and> n < 2 ^ 63"

subsection \<open>Strict dotted quads\<close>

text \<open>
  The canonical text of an IPv4 address, as \<open>net.IP.String\<close> prints it: four decimal
  octets without leading zeros, separated by dots.
\<close>

definition digit_char :: "nat \<Rightarrow> char" where
  "digit_char d = char_of (of_char (CHR ''0'') + d)"

definition dec_byte :: "nat \<Rightarrow> string" where
  "dec_byte v =
    (if v < 10 then [digit_char v]
     else if v < 100 then [digit_char (v div 10), digit_char (v mod 10)]
     else [digit_char (v div 100), digit_char (v div 10 mod 10), digit_char (v mod 10)])"

definition dotted_quad :: "byte \<Rightarrow> byte \<Rightarrow> byte \<Rightarrow> byte \<Rightarrow> string" where
  "dotted_quad a b c d =
    dec_byte (unat a) @ ''.'' @ dec_byte (unat b) @ ''.'' @ dec_byte (unat c) @ ''.'' @
    dec_byte (unat d)"

section \<open>The parser on the six-octet forms\<close>

text \<open>Unfolding the two parsing loops at a numeral.\<close>

lemma colon_octets_numeral:
  "colon_octets s (numeral k) x =
    (case xtoi2 (drop x s) (s ! 2) of
       (b, ok) \<Rightarrow>
         if \<not> ok then None
         else map_option (\<lambda>hw. b # hw) (colon_octets s (pred_numeral k) (x + 3)))"
  by (simp add: numeral_eq_Suc)

lemma dot_octets_numeral:
  "dot_octets s (numeral k) x =
    (case xtoi2 (take 2 (drop x s)) (CHR 0x00) of
       (b0, ok0) \<Rightarrow>
         if \<not> ok0 then None
         else (case xtoi2 (drop (x + 2) s) (s ! 4) of
           (b1, ok1) \<Rightarrow>
             if \<not> ok1 then None
             else map_option (\<lambda>hw. b0 # b1 # hw) (dot_octets s (pred_numeral k) (x + 5))))"
  by (simp add: numeral_eq_Suc)

lemma hexval_less: "is_hex c \<Longrightarrow> hexval c < 16"
  unfolding is_hex_def hexval_def in_range_def
  by (simp split: if_splits; arith)

lemma xtoi_from_hex:
  assumes "is_hex c" "n * 16 + hexval c < big"
  shows "xtoi_from (c # cs) n i = xtoi_from cs (n * 16 + hexval c) (i + 1)"
proof (cases "in_range (CHR ''0'') c (CHR ''9'')")
  case True
  with assms(2) show ?thesis
    by (simp add: hexval_def Let_def)
next
  case digit: False
  show ?thesis
  proof (cases "in_range (CHR ''a'') c (CHR ''f'')")
    case True
    with digit assms(2) show ?thesis
      by (simp add: hexval_def Let_def add.assoc)
  next
    case False
    with digit assms(1) have "in_range (CHR ''A'') c (CHR ''F'')"
      by (simp add: is_hex_def)
    with digit False assms(2) show ?thesis
      by (simp add: hexval_def Let_def add.assoc)
  qed
qed

lemma xtoi_pair:
  assumes "is_hex a" "is_hex b"
  shows "xtoi [a, b] = (hexval a * 16 + hexval b, 2, True)"
proof -
  have a: "hexval a < 16" and b: "hexval b < 16"
    using assms by (simp_all add: hexval_less)
  have "0 * 16 + hexval a < big" "hexval a * 16 + hexval b < big"
    using a b by (simp_all add: big_def)
  then have "xtoi_from [a, b] 0 0 = xtoi_from [b] (0 * 16 + hexval a) (0 + 1)"
    and "xtoi_from [b] (hexval a) 1 = xtoi_from [] (hexval a * 16 + hexval b) (1 + 1)"
    using assms by (simp_all only: xtoi_from_hex)
  then show ?thesis
    by (simp add: xtoi_def)
qed

lemma xtoi2_last: "is_hex a \<Longrightarrow> is_hex b \<Longrightarrow> xtoi2 [a, b] e = (octet a b, True)"
  by (simp add: xtoi2_def xtoi_pair octet_def)

lemma xtoi2_sep:
  "is_hex a \<Longrightarrow> is_hex b \<Longrightarrow> xtoi2 (a # b # e # rest) e = (octet a b, True)"
  by (simp add: xtoi2_def xtoi_pair octet_def)

lemma length_17:
  assumes "length s = 17"
  obtains c0 c1 c2 c3 c4 c5 c6 c7 c8 c9 c10 c11 c12 c13 c14 c15 c16
  where "s = [c0, c1, c2, c3, c4, c5, c6, c7, c8, c9, c10, c11, c12, c13, c14, c15, c16]"
proof -
  have "[0..<17] = [0, 1, 2, 3, 4, 5, 6, 7, 8, 9, 10, 11, 12, 13, 14, 15, 16::nat]"
    by (simp add: upt_conv_Cons)
  then have "map (\<lambda>i. s ! i) [0..<length s] =
      [s!0, s!1, s!2, s!3, s!4, s!5, s!6, s!7, s!8, s!9, s!10, s!11, s!12, s!13, s!14, s!15, s!16]"
    by (simp only: assms list.map)
  then have "s =
      [s!0, s!1, s!2, s!3, s!4, s!5, s!6, s!7, s!8, s!9, s!10, s!11, s!12, s!13, s!14, s!15, s!16]"
    by (simp only: map_nth)
  then show ?thesis by (rule that)
qed

lemma colon_octets_mac48:
  assumes "is_hex c0" "is_hex c1" "is_hex c3" "is_hex c4" "is_hex c6" "is_hex c7"
    "is_hex c9" "is_hex c10" "is_hex c12" "is_hex c13" "is_hex c15" "is_hex c16"
  shows "colon_octets
      [c0, c1, e, c3, c4, e, c6, c7, e, c9, c10, e, c12, c13, e, c15, c16] 6 0 =
    Some [octet c0 c1, octet c3 c4, octet c6 c7, octet c9 c10, octet c12 c13, octet c15 c16]"
  using assms by (simp add: colon_octets_numeral xtoi2_sep xtoi2_last)

lemma ParseMAC_mac48:
  assumes "mac48_text s"
  shows "ParseMAC s = Inr (mac48_octets s)"
proof -
  from assms have len: "length s = 17" by (simp add: mac48_text_def)
  then obtain c0 c1 e c3 c4 c5 c6 c7 c8 c9 c10 c11 c12 c13 c14 c15 c16
    where s: "s = [c0, c1, e, c3, c4, c5, c6, c7, c8, c9, c10, c11, c12, c13, c14, c15, c16]"
    by (rule length_17)
  from assms have seps: "c5 = e" "c8 = e" "c11 = e" "c14 = e"
    and e: "e = CHR '':'' \<or> e = CHR ''-''"
    and hex: "is_hex c0" "is_hex c1" "is_hex c3" "is_hex c4" "is_hex c6" "is_hex c7"
      "is_hex c9" "is_hex c10" "is_hex c12" "is_hex c13" "is_hex c15" "is_hex c16"
    by (simp_all add: mac48_text_def s)
  have loop: "colon_octets s 6 0 = Some (mac48_octets s)"
    unfolding s seps mac48_octets_def using hex
    by (simp only: colon_octets_mac48) simp
  have s2: "s ! 2 = e" by (simp add: s)
  show ?thesis
    using e by (simp add: ParseMAC_def len s2 loop)
qed

section \<open>Properties of the packet builder\<close>

lemma funpow_WriteByte: "(WriteByte c ^^ n) p = p\<lparr>payload := payload p @ replicate n c\<rparr>"
proof (induction n)
  case 0
  show ?case by simp
next
  case (Suc n)
  then show ?case
    by (simp add: WriteByte_def replicate_append_same)
qed

lemma funpow_Write: "(Write b ^^ n) p = p\<lparr>payload := payload p @ concat (replicate n b)\<rparr>"
proof (induction n)
  case 0
  show ?case by simp
next
  case (Suc n)
  have "concat (replicate n b) @ b = b @ concat (replicate n b)"
    by (induction n) simp_all
  with Suc show ?case
    by (simp add: Write_def)
qed

lemma writeHeader_payload: "payload (writeHeader p) = payload p @ replicate 6 0xFF"
  by (simp add: writeHeader_def funpow_WriteByte)

lemma WriteMAC_Inr:
  "ParseMAC addr = Inr hw \<Longrightarrow>
   WriteMAC p addr = (None, p\<lparr>payload := payload p @ concat (replicate 16 hw)\<rparr>)"
  by (simp add: WriteMAC_def funpow_Write)

lemma WriteMAC_Inl:
  "ParseMAC addr = Inl e \<Longrightarrow> WriteMAC p addr = (Some (InvalidMAC addr e), p)"
  by (simp add: WriteMAC_def)

lemma WriteMAC_None_iff:
  "WriteMAC p addr = (None, p') \<longleftrightarrow>
   (\<exists>hw. ParseMAC addr = Inr hw \<and> p' = p\<lparr>payload := payload p @ concat (replicate 16 hw)\<rparr>)"
  by (cases "ParseMAC addr") (auto simp: WriteMAC_Inr WriteMAC_Inl)

lemma WriteMAC_Some_iff:
  "WriteMAC p addr = (Some err, p') \<longleftrightarrow>
   (\<exists>e. ParseMAC addr = Inl e \<and> err = InvalidMAC addr e \<and> p' = p)"
  by (cases "ParseMAC addr") (auto simp: WriteMAC_Inr WriteMAC_Inl)

lemma block_of_repeats:
  assumes "k < n"
  shows "take (length hw) (drop (length hw * k) (concat (replicate n hw))) = hw"
  using assms
proof (induction k arbitrary: n)
  case 0
  then obtain m where "n = Suc m" by (cases n) auto
  then show ?case by simp
next
  case (Suc k)
  then obtain m where n: "n = Suc m" and "k < m" by (cases n) auto
  with Suc.IH [of m] show ?case
    by simp
qed

lemma mac48_octets_length: "length (mac48_octets s) = 6"
  by (simp add: mac48_octets_def)

lemma ParseMAC_example_colon:
  "ParseMAC ''00:11:22:33:44:55'' = Inr [0x00, 0x11, 0x22, 0x33, 0x44, 0x55]"
  by (simp add: ParseMAC_def colon_octets_numeral xtoi2_def xtoi_def in_range_def big_def)

lemma ParseMAC_example_hyphen:
  "ParseMAC ''AA-BB-CC-DD-EE-FF'' = Inr [0xAA, 0xBB, 0xCC, 0xDD, 0xEE, 0xFF]"
  by (simp add: ParseMAC_def colon_octets_numeral xtoi2_def xtoi_def in_range_def big_def)

lemma ParseMAC_example_eui64:
  "ParseMAC ''01:23:45:67:89:ab:cd:ef'' = Inr [0x01, 0x23, 0x45, 0x67, 0x89, 0xab, 0xcd, 0xef]"
  by (simp add: ParseMAC_def colon_octets_numeral xtoi2_def xtoi_def in_range_def big_def)

lemma ParseMAC_example_bad:
  "ParseMAC ''bad-mac'' = Inl (AddrError ''invalid MAC address'' ''bad-mac'')"
  by (simp add: ParseMAC_def)

text \<open>
  Claim C1. For every MAC text of the six-octet colon or hyphen form, \<open>writeHeader\<close> followed
  by \<open>WriteMAC\<close> on a fresh packet succeeds with a payload of exactly 102 bytes: six bytes
  \<open>0xFF\<close>, then the decoded address in each of the sixteen windows \<open>[6 + 6k, 6 + 6k + 6)\<close>.
\<close>

theorem magic_packet_layout:
  assumes "mac48_text s"
  shows "ParseMAC s = Inr (mac48_octets s) \<and>
    WriteMAC (writeHeader new_Packet) s =
      (None, \<lparr>payload = replicate 6 0xFF @ concat (replicate 16 (mac48_octets s))\<rparr>) \<and>
    length (payload (snd (WriteMAC (writeHeader new_Packet) s))) = 102 \<and>
    (\<forall>i<6. payload (snd (WriteMAC (writeHeader new_Packet) s)) ! i = 0xFF) \<and>
    (\<forall>k<16. take 6 (drop (6 + 6 * k) (payload (snd (WriteMAC (writeHeader new_Packet) s)))) =
        mac48_octets s)"
proof -
  let ?hw = "mac48_octets s"
  let ?pl = "replicate 6 0xFF @ concat (replicate 16 ?hw)"
  have parse: "ParseMAC s = Inr ?hw"
    using assms by (rule ParseMAC_mac48)
  have hdr: "writeHeader new_Packet = \<lparr>payload = replicate 6 0xFF\<rparr>"
    by (simp add: writeHeader_def funpow_WriteByte new_Packet_def)
  have run: "WriteMAC (writeHeader new_Packet) s = (None, \<lparr>payload = ?pl\<rparr>)"
    by (simp add: WriteMAC_Inr [OF parse] hdr)
  have len: "length ?pl = 102"
    by (simp add: length_concat mac48_octets_length sum_list_replicate)
  have head: "?pl ! i = 0xFF" if "i < 6" for i
    using that by (simp add: nth_append)
  have block: "take 6 (drop (6 + 6 * k) ?pl) = ?hw" if "k < 16" for k
    using block_of_repeats [OF that, of ?hw] by (simp add: mac48_octets_length)
  from parse run len head block show ?thesis
    by simp
qed

theorem magic_packet_layout_witness:
  "mac48_text ''00:11:22:33:44:55'' \<and>
   ParseMAC ''00:11:22:33:44:55'' = Inr [0x00, 0x11, 0x22, 0x33, 0x44, 0x55] \<and>
   length (payload (snd (WriteMAC (writeHeader new_Packet) ''00:11:22:33:44:55''))) = 102 \<and>
   payload (snd (WriteMAC (writeHeader new_Packet) ''00:11:22:33:44:55'')) ! 5 = 0xFF \<and>
   take 6 (drop 96 (payload (snd (WriteMAC (writeHeader new_Packet) ''00:11:22:33:44:55'')))) =
     [0x00, 0x11, 0x22, 0x33, 0x44, 0x55]"
proof -
  have wf: "mac48_text ''00:11:22:33:44:55''"
    by (simp add: mac48_text_def is_hex_def in_range_def)
  have octets: "mac48_octets ''00:11:22:33:44:55'' = [0x00, 0x11, 0x22, 0x33, 0x44, 0x55]"
    by (simp add: mac48_octets_def octet_def hexval_def in_range_def)
  have "(5::nat) < 6" "(15::nat) < 16" "6 + 6 * 15 = (96::nat)"
    by simp_all
  with magic_packet_layout [OF wf] wf octets show ?thesis
    by metis
qed

text \<open>
  Claim C9. The builder only appends: \<open>writeHeader\<close> keeps the bytes already in the buffer
  and adds six bytes \<open>0xFF\<close>; a successful \<open>WriteMAC\<close> keeps them and adds sixteen copies
  of the parsed address, so a second successful call grows the payload further.
\<close>

theorem builder_appends_only:
  "payload (writeHeader p) = payload p @ replicate 6 0xFF \<and>
   (WriteMAC p addr = (None, p') \<longrightarrow>
      (\<exists>hw. ParseMAC addr = Inr hw \<and> payload p' = payload p @ concat (replicate 16 hw))) \<and>
   (WriteMAC p addr = (None, p') \<and> WriteMAC p' addr2 = (None, p'') \<longrightarrow>
      (\<exists>hw hw2. ParseMAC addr = Inr hw \<and> ParseMAC addr2 = Inr hw2 \<and>
         payload p'' = payload p @ concat (replicate 16 hw) @ concat (replicate 16 hw2)))"
  by (auto simp: writeHeader_payload WriteMAC_None_iff)

theorem builder_appends_only_witness:
  "WriteMAC \<lparr>payload = [1, 2]\<rparr> ''00:11:22:33:44:55'' =
     (None, \<lparr>payload = [1, 2] @ concat (replicate 16 [0x00, 0x11, 0x22, 0x33, 0x44, 0x55])\<rparr>) \<and>
   WriteMAC \<lparr>payload = [1, 2] @ concat (replicate 16 [0x00, 0x11, 0x22, 0x33, 0x44, 0x55])\<rparr>
       ''AA-BB-CC-DD-EE-FF'' =
     (None, \<lparr>payload = ([1, 2] @ concat (replicate 16 [0x00, 0x11, 0x22, 0x33, 0x44, 0x55])) @
        concat (replicate 16 [0xAA, 0xBB, 0xCC, 0xDD, 0xEE, 0xFF])\<rparr>) \<and>
   payload (writeHeader \<lparr>payload = [1, 2]\<rparr>) = [1, 2] @ replicate 6 0xFF \<and>
   (\<exists>hw hw2. ParseMAC ''00:11:22:33:44:55'' = Inr hw \<and> ParseMAC ''AA-BB-CC-DD-EE-FF'' = Inr hw2 \<and>
      payload \<lparr>payload = ([1, 2] @ concat (replicate 16 [0x00, 0x11, 0x22, 0x33, 0x44, 0x55])) @
        concat (replicate 16 [0xAA, 0xBB, 0xCC, 0xDD, 0xEE, 0xFF])\<rparr> =
      [1, 2] @ concat (replicate 16 hw) @ concat (replicate 16 hw2))"
proof -
  let ?p = "\<lparr>payload = [1, 2]\<rparr>"
  let ?p' = "\<lparr>payload = [1, 2] @ concat (replicate 16 [0x00, 0x11, 0x22, 0x33, 0x44, 0x55])\<rparr>"
  let ?p'' = "\<lparr>payload = ([1, 2] @ concat (replicate 16 [0x00, 0x11, 0x22, 0x33, 0x44, 0x55])) @
        concat (replicate 16 [0xAA, 0xBB, 0xCC, 0xDD, 0xEE, 0xFF])\<rparr>"
  have one: "WriteMAC ?p ''00:11:22:33:44:55'' = (None, ?p')"
    by (simp add: WriteMAC_Inr [OF ParseMAC_example_colon])
  have two: "WriteMAC ?p' ''AA-BB-CC-DD-EE-FF'' = (None, ?p'')"
    by (simp add: WriteMAC_Inr [OF ParseMAC_example_hyphen])
  from builder_appends_only [of ?p "''00:11:22:33:44:55''" ?p' "''AA-BB-CC-DD-EE-FF''" ?p''] one two
  show ?thesis
    by simp
qed

section \<open>The transmitter and the orchestration, stage by stage\<close>

lemma getRAddr_empty: "getRAddr [] = Inr (IPv4 255 255 255 255)"
  by (simp add: getRAddr_def)

lemma getPort_empty: "getPort [] = Inr 9"
  by (simp add: getPort_def defaultPort_def)

lemma getRAddr_example_bad:
  "getRAddr ''999.1.1.1'' = Inl (InvalidRemoteAddress ''999.1.1.1'')"
  by (simp add: getRAddr_def ParseIP_def ParseAddr_def parseIPv4_def in_range_def)

lemma getPort_example_80: "getPort ''80'' = Inl (PortNotSupported 80)"
  by (simp add: getPort_def Atoi_def intSize_def acceptedPorts_def)

lemma getPort_example_x:
  "getPort ''x'' = Inl (InvalidPort ''x'' (NumError ''Atoi'' ''x'' ErrSyntax))"
  by (simp add: getPort_def Atoi_def intSize_def syntaxError_def)

lemma SendUDP_bad_address:
  "getRAddr ip = Inl e \<Longrightarrow> SendUDP nw p ip port = (Some (Wrapped ''parse remote IP'' e), [])"
  by (simp add: SendUDP_def Let_def)

lemma SendUDP_bad_port:
  "getRAddr ip = Inr a \<Longrightarrow> getPort port = Inl e \<Longrightarrow>
   SendUDP nw p ip port = (Some (Wrapped ''parse port'' e), [])"
  by (simp add: SendUDP_def Let_def)

lemma SendUDP_dial_fails:
  "getRAddr ip = Inr a \<Longrightarrow> getPort port = Inr n \<Longrightarrow> dial nw \<lparr>IP = a, Port = n\<rparr> = Some e \<Longrightarrow>
   SendUDP nw p ip port =
     (Some (Wrapped ''dial UDP'' e), [DialUDP \<lparr>IP = a, Port = n\<rparr> (Some e)])"
  by (simp add: SendUDP_def Let_def)

lemma SendUDP_dialled:
  "getRAddr ip = Inr a \<Longrightarrow> getPort port = Inr n \<Longrightarrow> dial nw \<lparr>IP = a, Port = n\<rparr> = None \<Longrightarrow>
   SendUDP nw p ip port =
     (map_option (Wrapped ''write UDP packet'') (conn_write nw \<lparr>IP = a, Port = n\<rparr> (payload p)),
      [DialUDP \<lparr>IP = a, Port = n\<rparr> None,
       ConnWrite \<lparr>IP = a, Port = n\<rparr> (payload p)
         (conn_write nw \<lparr>IP = a, Port = n\<rparr> (payload p)),
       ConnClose \<lparr>IP = a, Port = n\<rparr>])"
  by (simp add: SendUDP_def Let_def split: option.split)

lemma SendMagic_password: "passwd \<noteq> [] \<Longrightarrow> SendMagic nw macAddr passwd ip port = (Some PasswordNotSupported, [])"
  by (simp add: SendMagic_def)

lemma SendMagic_bad_MAC:
  "ParseMAC macAddr = Inl e \<Longrightarrow>
   SendMagic nw macAddr [] ip port =
     (Some (Wrapped ''write MAC address'' (InvalidMAC macAddr e)), [])"
  by (simp add: SendMagic_def WriteMAC_Inl)

lemma SendMagic_built:
  "ParseMAC macAddr = Inr hw \<Longrightarrow>
   SendMagic nw macAddr [] ip port =
     (map_option (Wrapped ''send UDP'')
        (fst (SendUDP nw \<lparr>payload = replicate 6 0xFF @ concat (replicate 16 hw)\<rparr> ip port)),
      snd (SendUDP nw \<lparr>payload = replicate 6 0xFF @ concat (replicate 16 hw)\<rparr> ip port))"
  by (simp add: SendMagic_def WriteMAC_Inr writeHeader_def funpow_WriteByte new_Packet_def
      split: prod.split option.split)

text \<open>
  Claim C3. With a non-empty password \<open>SendMagic\<close> returns the error
  "password-protected Wake-on-LAN not supported yet" at once: the result is the same
  whatever the MAC, the address and the port are, and no network operation is performed.
\<close>

theorem password_is_refused_first:
  assumes "passwd \<noteq> []"
  shows "SendMagic nw macAddr passwd ip port = (Some PasswordNotSupported, [])"
  using assms by (simp add: SendMagic_def)

theorem password_is_refused_first_witness:
  "''secret'' \<noteq> [] \<and>
   SendMagic ok_net ''00:11:22:33:44:55'' ''secret'' ''192.168.1.255'' ''9'' =
     (Some PasswordNotSupported, []) \<and>
   SendMagic unreachable_net ''bad-mac'' ''secret'' ''999.1.1.1'' ''80'' =
     (Some PasswordNotSupported, [])"
  using password_is_refused_first [of "''secret''" ok_net "''00:11:22:33:44:55''" "''192.168.1.255''" "''9''"]
    password_is_refused_first [of "''secret''" unreachable_net "''bad-mac''" "''999.1.1.1''" "''80''"]
  by simp

text \<open>
  Claim C10. \<open>SendUDP\<close> resolves the destination address before the port: when both
  the address text and the port text are invalid the error returned is the address error,
  wrapped as "parse remote IP", and the result does not depend on the port text at all.
\<close>

theorem address_is_checked_before_port:
  assumes "getRAddr ip = Inl e" and "getPort port = Inl e'"
  shows "SendUDP nw p ip port = (Some (Wrapped ''parse remote IP'' e), []) \<and>
    (\<forall>port'. SendUDP nw p ip port' = SendUDP nw p ip port)"
  using assms(1) by (simp add: SendUDP_bad_address)

theorem address_is_checked_before_port_witness:
  "getRAddr ''999.1.1.1'' = Inl (InvalidRemoteAddress ''999.1.1.1'') \<and>
   getPort ''80'' = Inl (PortNotSupported 80) \<and>
   SendUDP ok_net new_Packet ''999.1.1.1'' ''80'' =
     (Some (Wrapped ''parse remote IP'' (InvalidRemoteAddress ''999.1.1.1'')), []) \<and>
   SendUDP ok_net new_Packet ''999.1.1.1'' ''9'' = SendUDP ok_net new_Packet ''999.1.1.1'' ''80''"
proof -
  note run = address_is_checked_before_port
    [OF getRAddr_example_bad getPort_example_80, of ok_net new_Packet]
  from run have first: "SendUDP ok_net new_Packet ''999.1.1.1'' ''80'' =
      (Some (Wrapped ''parse remote IP'' (InvalidRemoteAddress ''999.1.1.1'')), [])"
    by (rule conjunct1)
  from run have same: "SendUDP ok_net new_Packet ''999.1.1.1'' ''9'' =
      SendUDP ok_net new_Packet ''999.1.1.1'' ''80''"
    by (rule conjunct2 [THEN spec])
  from first same getRAddr_example_bad getPort_example_80 show ?thesis
    by (simp only: simp_thms)
qed

text \<open>
  Claim C8. \<open>SendUDP\<close> leaves no socket open on any return. It returns a transmission
  failure exactly when address and port resolve and the dial or the write fails. Once
  address and port are resolved it dials that destination; it returns no error exactly when
  both the dial and the write succeed; a failed dial is returned wrapped as "dial UDP";
  after a successful dial the whole payload is written as one datagram to that destination,
  the connection is closed, and a failed write is returned wrapped as "write UDP packet".
\<close>

theorem SendUDP_transmits_and_releases:
  "unreleased (snd (SendUDP nw p ip port)) = 0 \<and>
   ((\<exists>err. fst (SendUDP nw p ip port) = Some err \<and> transmission_failure err) \<longleftrightarrow>
      (\<exists>a n. getRAddr ip = Inr a \<and> getPort port = Inr n \<and>
         (dial nw \<lparr>IP = a, Port = n\<rparr> \<noteq> None \<or>
          conn_write nw \<lparr>IP = a, Port = n\<rparr> (payload p) \<noteq> None))) \<and>
   (\<forall>a n. getRAddr ip = Inr a \<and> getPort port = Inr n \<longrightarrow>
      (fst (SendUDP nw p ip port) = None \<longleftrightarrow>
         dial nw \<lparr>IP = a, Port = n\<rparr> = None \<and>
         conn_write nw \<lparr>IP = a, Port = n\<rparr> (payload p) = None) \<and>
      (\<forall>e. dial nw \<lparr>IP = a, Port = n\<rparr> = Some e \<longrightarrow>
         SendUDP nw p ip port =
           (Some (Wrapped ''dial UDP'' e), [DialUDP \<lparr>IP = a, Port = n\<rparr> (Some e)])) \<and>
      (dial nw \<lparr>IP = a, Port = n\<rparr> = None \<longrightarrow>
         snd (SendUDP nw p ip port) =
           [DialUDP \<lparr>IP = a, Port = n\<rparr> None,
            ConnWrite \<lparr>IP = a, Port = n\<rparr> (payload p)
              (conn_write nw \<lparr>IP = a, Port = n\<rparr> (payload p)),
            ConnClose \<lparr>IP = a, Port = n\<rparr>] \<and>
         datagrams (snd (SendUDP nw p ip port)) = [(\<lparr>IP = a, Port = n\<rparr>, payload p)] \<and>
         (\<forall>e. conn_write nw \<lparr>IP = a, Port = n\<rparr> (payload p) = Some e \<longrightarrow>
            fst (SendUDP nw p ip port) = Some (Wrapped ''write UDP packet'' e))))"
proof -
  have released: "unreleased (snd (SendUDP nw p ip port)) = 0"
  proof (cases "getRAddr ip")
    case (Inl e)
    then show ?thesis by (simp add: SendUDP_bad_address)
  next
    case (Inr a)
    show ?thesis
    proof (cases "getPort port")
      case (Inl e)
      with Inr show ?thesis by (simp add: SendUDP_bad_port)
    next
      case port: (Inr n)
      show ?thesis
      proof (cases "dial nw \<lparr>IP = a, Port = n\<rparr>")
        case None
        with Inr port show ?thesis by (simp add: SendUDP_dialled)
      next
        case (Some e)
        with Inr port show ?thesis by (simp add: SendUDP_dial_fails)
      qed
    qed
  qed
  have resolved: "(fst (SendUDP nw p ip port) = None \<longleftrightarrow>
         dial nw \<lparr>IP = a, Port = n\<rparr> = None \<and>
         conn_write nw \<lparr>IP = a, Port = n\<rparr> (payload p) = None) \<and>
      (\<forall>e. dial nw \<lparr>IP = a, Port = n\<rparr> = Some e \<longrightarrow>
         SendUDP nw p ip port =
           (Some (Wrapped ''dial UDP'' e), [DialUDP \<lparr>IP = a, Port = n\<rparr> (Some e)])) \<and>
      (dial nw \<lparr>IP = a, Port = n\<rparr> = None \<longrightarrow>
         snd (SendUDP nw p ip port) =
           [DialUDP \<lparr>IP = a, Port = n\<rparr> None,
            ConnWrite \<lparr>IP = a, Port = n\<rparr> (payload p)
              (conn_write nw \<lparr>IP = a, Port = n\<rparr> (payload p)),
            ConnClose \<lparr>IP = a, Port = n\<rparr>] \<and>
         datagrams (snd (SendUDP nw p ip port)) = [(\<lparr>IP = a, Port = n\<rparr>, payload p)] \<and>
         (\<forall>e. conn_write nw \<lparr>IP = a, Port = n\<rparr> (payload p) = Some e \<longrightarrow>
            fst (SendUDP nw p ip port) = Some (Wrapped ''write UDP packet'' e)))"
    if "getRAddr ip = Inr a" "getPort port = Inr n" for a n
  proof (cases "dial nw \<lparr>IP = a, Port = n\<rparr>")
    case None
    with that show ?thesis by (simp add: SendUDP_dialled)
  next
    case (Some e)
    with that show ?thesis by (simp add: SendUDP_dial_fails)
  qed
  have failure: "(\<exists>err. fst (SendUDP nw p ip port) = Some err \<and> transmission_failure err) \<longleftrightarrow>
      (\<exists>a n. getRAddr ip = Inr a \<and> getPort port = Inr n \<and>
         (dial nw \<lparr>IP = a, Port = n\<rparr> \<noteq> None \<or>
          conn_write nw \<lparr>IP = a, Port = n\<rparr> (payload p) \<noteq> None))"
  proof (cases "getRAddr ip")
    case (Inl e)
    then show ?thesis by (simp add: SendUDP_bad_address)
  next
    case (Inr a)
    show ?thesis
    proof (cases "getPort port")
      case (Inl e)
      with Inr show ?thesis by (simp add: SendUDP_bad_port)
    next
      case port: (Inr n)
      show ?thesis
      proof (cases "dial nw \<lparr>IP = a, Port = n\<rparr>")
        case None
        with Inr port show ?thesis
          by (cases "conn_write nw \<lparr>IP = a, Port = n\<rparr> (payload p)")
             (simp_all add: SendUDP_dialled)
      next
        case (Some e)
        with Inr port show ?thesis by (simp add: SendUDP_dial_fails)
      qed
    qed
  qed
  from released failure resolved show ?thesis
    by blast
qed

theorem SendUDP_transmits_and_releases_witness:
  "getRAddr [] = Inr (IPv4 255 255 255 255) \<and> getPort [] = Inr 9 \<and>
   SendUDP ok_net \<lparr>payload = [1, 2, 3]\<rparr> [] [] =
     (None,
      [DialUDP \<lparr>IP = IPv4 255 255 255 255, Port = 9\<rparr> None,
       ConnWrite \<lparr>IP = IPv4 255 255 255 255, Port = 9\<rparr> [1, 2, 3] None,
       ConnClose \<lparr>IP = IPv4 255 255 255 255, Port = 9\<rparr>]) \<and>
   SendUDP write_fail_net \<lparr>payload = [1, 2, 3]\<rparr> [] [] =
     (Some (Wrapped ''write UDP packet'' (OpError ''sendto: permission denied'')),
      [DialUDP \<lparr>IP = IPv4 255 255 255 255, Port = 9\<rparr> None,
       ConnWrite \<lparr>IP = IPv4 255 255 255 255, Port = 9\<rparr> [1, 2, 3]
         (Some (OpError ''sendto: permission denied'')),
       ConnClose \<lparr>IP = IPv4 255 255 255 255, Port = 9\<rparr>]) \<and>
   SendUDP unreachable_net \<lparr>payload = [1, 2, 3]\<rparr> [] [] =
     (Some (Wrapped ''dial UDP'' (OpError ''connect: network is unreachable'')),
      [DialUDP \<lparr>IP = IPv4 255 255 255 255, Port = 9\<rparr>
         (Some (OpError ''connect: network is unreachable''))])"
proof -
  let ?p = "\<lparr>payload = [1, 2, 3]\<rparr>"
  have ok: "dial ok_net a = None" "conn_write ok_net a b = None" for a b
    by (simp_all add: ok_net_def)
  have wf: "dial write_fail_net a = None"
    "conn_write write_fail_net a b = Some (OpError ''sendto: permission denied'')" for a b
    by (simp_all add: write_fail_net_def)
  have un: "dial unreachable_net a = Some (OpError ''connect: network is unreachable'')" for a
    by (simp add: unreachable_net_def)
  from SendUDP_transmits_and_releases [of ok_net ?p "[]" "[]"]
    SendUDP_transmits_and_releases [of write_fail_net ?p "[]" "[]"]
    SendUDP_transmits_and_releases [of unreachable_net ?p "[]" "[]"]
  show ?thesis
    by (simp add: getRAddr_empty getPort_empty ok wf un prod_eq_iff)
qed

text \<open>
  Claim C7. \<open>SendMagic\<close> hands every error back to its caller, wrapped around its cause:
  a MAC that does not parse, an address or a port that does not resolve, a failed dial and
  a failed write each give the returned error shown; \<open>nil\<close> is returned only when every
  stage succeeded; and when the MAC, the address or the port is refused no network
  operation takes place at all.
\<close>

theorem SendMagic_propagates_every_error:
  "(\<forall>e. ParseMAC macAddr = Inl e \<longrightarrow>
      SendMagic nw macAddr [] ip port =
        (Some (Wrapped ''write MAC address'' (InvalidMAC macAddr e)), [])) \<and>
   (\<forall>hw e. ParseMAC macAddr = Inr hw \<and> getRAddr ip = Inl e \<longrightarrow>
      SendMagic nw macAddr [] ip port =
        (Some (Wrapped ''send UDP'' (Wrapped ''parse remote IP'' e)), [])) \<and>
   (\<forall>hw a e. ParseMAC macAddr = Inr hw \<and> getRAddr ip = Inr a \<and> getPort port = Inl e \<longrightarrow>
      SendMagic nw macAddr [] ip port =
        (Some (Wrapped ''send UDP'' (Wrapped ''parse port'' e)), [])) \<and>
   (\<forall>hw a n e. ParseMAC macAddr = Inr hw \<and> getRAddr ip = Inr a \<and> getPort port = Inr n \<and>
        dial nw \<lparr>IP = a, Port = n\<rparr> = Some e \<longrightarrow>
      fst (SendMagic nw macAddr [] ip port) =
        Some (Wrapped ''send UDP'' (Wrapped ''dial UDP'' e)) \<and>
      datagrams (snd (SendMagic nw macAddr [] ip port)) = []) \<and>
   (\<forall>hw a n e. ParseMAC macAddr = Inr hw \<and> getRAddr ip = Inr a \<and> getPort port = Inr n \<and>
        dial nw \<lparr>IP = a, Port = n\<rparr> = None \<and>
        conn_write nw \<lparr>IP = a, Port = n\<rparr>
          (replicate 6 0xFF @ concat (replicate 16 hw)) = Some e \<longrightarrow>
      fst (SendMagic nw macAddr [] ip port) =
        Some (Wrapped ''send UDP'' (Wrapped ''write UDP packet'' e))) \<and>
   (fst (SendMagic nw macAddr passwd ip port) = None \<longleftrightarrow>
      passwd = [] \<and>
      (\<exists>hw a n. ParseMAC macAddr = Inr hw \<and> getRAddr ip = Inr a \<and> getPort port = Inr n \<and>
         dial nw \<lparr>IP = a, Port = n\<rparr> = None \<and>
         conn_write nw \<lparr>IP = a, Port = n\<rparr>
           (replicate 6 0xFF @ concat (replicate 16 hw)) = None)) \<and>
   ((\<exists>e. ParseMAC macAddr = Inl e) \<or> (\<exists>e. getRAddr ip = Inl e) \<or> (\<exists>e. getPort port = Inl e) \<longrightarrow>
      snd (SendMagic nw macAddr passwd ip port) = [])"
  (is "?mac \<and> ?addr \<and> ?port \<and> ?dial \<and> ?write \<and> ?nil \<and> ?silent")
proof -
  let ?pl = "\<lambda>hw. replicate 6 (0xFF :: byte) @ concat (replicate 16 hw)"
  have mac: "SendMagic nw macAddr [] ip port =
      (Some (Wrapped ''write MAC address'' (InvalidMAC macAddr e)), [])"
    if "ParseMAC macAddr = Inl e" for e
    using that by (rule SendMagic_bad_MAC)
  have addr: "SendMagic nw macAddr [] ip port =
      (Some (Wrapped ''send UDP'' (Wrapped ''parse remote IP'' e)), [])"
    if "ParseMAC macAddr = Inr hw" "getRAddr ip = Inl e" for hw e
    using that by (simp add: SendMagic_built SendUDP_bad_address)
  have prt: "SendMagic nw macAddr [] ip port =
      (Some (Wrapped ''send UDP'' (Wrapped ''parse port'' e)), [])"
    if "ParseMAC macAddr = Inr hw" "getRAddr ip = Inr a" "getPort port = Inl e" for hw a e
    using that by (simp add: SendMagic_built SendUDP_bad_port)
  have dl: "SendMagic nw macAddr [] ip port =
      (Some (Wrapped ''send UDP'' (Wrapped ''dial UDP'' e)),
       [DialUDP \<lparr>IP = a, Port = n\<rparr> (Some e)])"
    if "ParseMAC macAddr = Inr hw" "getRAddr ip = Inr a" "getPort port = Inr n"
      "dial nw \<lparr>IP = a, Port = n\<rparr> = Some e" for hw a n e
    using that by (simp add: SendMagic_built SendUDP_dial_fails)
  have wr: "SendMagic nw macAddr [] ip port =
      (map_option (\<lambda>e. Wrapped ''send UDP'' (Wrapped ''write UDP packet'' e))
         (conn_write nw \<lparr>IP = a, Port = n\<rparr> (?pl hw)),
       [DialUDP \<lparr>IP = a, Port = n\<rparr> None,
        ConnWrite \<lparr>IP = a, Port = n\<rparr> (?pl hw) (conn_write nw \<lparr>IP = a, Port = n\<rparr> (?pl hw)),
        ConnClose \<lparr>IP = a, Port = n\<rparr>])"
    if "ParseMAC macAddr = Inr hw" "getRAddr ip = Inr a" "getPort port = Inr n"
      "dial nw \<lparr>IP = a, Port = n\<rparr> = None" for hw a n
    using that by (simp add: SendMagic_built SendUDP_dialled option.map_comp comp_def)
  have pw: "SendMagic nw macAddr passwd ip port = (Some PasswordNotSupported, [])"
    if "passwd \<noteq> []"
    using that by (rule SendMagic_password)
  have nil_iff: "fst (SendMagic nw macAddr passwd ip port) = None \<longleftrightarrow>
      passwd = [] \<and>
      (\<exists>hw a n. ParseMAC macAddr = Inr hw \<and> getRAddr ip = Inr a \<and> getPort port = Inr n \<and>
         dial nw \<lparr>IP = a, Port = n\<rparr> = None \<and>
         conn_write nw \<lparr>IP = a, Port = n\<rparr> (?pl hw) = None)"
  proof (cases "passwd = []")
    case False
    then show ?thesis by (simp add: pw)
  next
    case True
    show ?thesis
    proof (cases "ParseMAC macAddr")
      case (Inl e)
      with True show ?thesis by (simp add: mac)
    next
      case (Inr hw)
      show ?thesis
      proof (cases "getRAddr ip")
        case (Inl e)
        with True Inr show ?thesis by (simp add: addr)
      next
        case a: (Inr a)
        show ?thesis
        proof (cases "getPort port")
          case (Inl e)
          with True Inr a show ?thesis by (simp add: prt)
        next
          case n: (Inr n)
          show ?thesis
          proof (cases "dial nw \<lparr>IP = a, Port = n\<rparr>")
            case None
            with True Inr a n show ?thesis by (simp add: wr)
          next
            case (Some e)
            with True Inr a n show ?thesis by (simp add: dl)
          qed
        qed
      qed
    qed
  qed
  have silent: "snd (SendMagic nw macAddr passwd ip port) = []"
    if "(\<exists>e. ParseMAC macAddr = Inl e) \<or> (\<exists>e. getRAddr ip = Inl e) \<or> (\<exists>e. getPort port = Inl e)"
  proof (cases "passwd = []")
    case False
    then show ?thesis by (simp add: pw)
  next
    case True
    show ?thesis
    proof (cases "ParseMAC macAddr")
      case (Inl e)
      with True show ?thesis by (simp add: mac)
    next
      case (Inr hw)
      show ?thesis
      proof (cases "getRAddr ip")
        case (Inl e)
        with True Inr show ?thesis by (simp add: addr)
      next
        case a: (Inr a)
        show ?thesis
        proof (cases "getPort port")
          case (Inl e)
          with True Inr a show ?thesis by (simp add: prt)
        next
          case n: (Inr n)
          with that Inr a show ?thesis by simp
        qed
      qed
    qed
  qed
  have "?mac" using mac by blast
  moreover have "?addr" using addr by blast
  moreover have "?port" using prt by blast
  moreover have "?dial" using dl by simp
  moreover have "?write" using wr by simp
  moreover have "?nil" by (rule nil_iff)
  moreover have "?silent" using silent by blast
  ultimately show ?thesis
    by (intro conjI)
qed

theorem SendMagic_propagates_every_error_witness:
  "ParseMAC ''bad-mac'' = Inl (AddrError ''invalid MAC address'' ''bad-mac'') \<and>
   SendMagic ok_net ''bad-mac'' [] [] [] =
     (Some (Wrapped ''write MAC address''
        (InvalidMAC ''bad-mac'' (AddrError ''invalid MAC address'' ''bad-mac''))), []) \<and>
   getRAddr ''999.1.1.1'' = Inl (InvalidRemoteAddress ''999.1.1.1'') \<and>
   SendMagic ok_net ''00:11:22:33:44:55'' [] ''999.1.1.1'' [] =
     (Some (Wrapped ''send UDP'' (Wrapped ''parse remote IP''
        (InvalidRemoteAddress ''999.1.1.1''))), []) \<and>
   getPort ''80'' = Inl (PortNotSupported 80) \<and>
   SendMagic ok_net ''00:11:22:33:44:55'' [] [] ''80'' =
     (Some (Wrapped ''send UDP'' (Wrapped ''parse port'' (PortNotSupported 80))), []) \<and>
   fst (SendMagic unreachable_net ''00:11:22:33:44:55'' [] [] []) =
     Some (Wrapped ''send UDP'' (Wrapped ''dial UDP''
        (OpError ''connect: network is unreachable''))) \<and>
   fst (SendMagic write_fail_net ''00:11:22:33:44:55'' [] [] []) =
     Some (Wrapped ''send UDP'' (Wrapped ''write UDP packet''
        (OpError ''sendto: permission denied''))) \<and>
   fst (SendMagic ok_net ''00:11:22:33:44:55'' [] [] []) = None"
proof -
  let ?mac = "''00:11:22:33:44:55''"
  have ok: "dial ok_net a = None" "conn_write ok_net a b = None" for a b
    by (simp_all add: ok_net_def)
  have wf: "dial write_fail_net a = None"
    "conn_write write_fail_net a b = Some (OpError ''sendto: permission denied'')" for a b
    by (simp_all add: write_fail_net_def)
  have un: "dial unreachable_net a = Some (OpError ''connect: network is unreachable'')" for a
    by (simp add: unreachable_net_def)
  have w1: "SendMagic ok_net ''bad-mac'' [] [] [] =
     (Some (Wrapped ''write MAC address''
        (InvalidMAC ''bad-mac'' (AddrError ''invalid MAC address'' ''bad-mac''))), [])"
    using SendMagic_propagates_every_error [of "''bad-mac''" ok_net "[]" "[]" "[]"]
      ParseMAC_example_bad by blast
  have w2: "SendMagic ok_net ?mac [] ''999.1.1.1'' [] =
     (Some (Wrapped ''send UDP'' (Wrapped ''parse remote IP''
        (InvalidRemoteAddress ''999.1.1.1''))), [])"
    using SendMagic_propagates_every_error [of ?mac ok_net "''999.1.1.1''" "[]" "[]"]
      ParseMAC_example_colon getRAddr_example_bad by blast
  have w3: "SendMagic ok_net ?mac [] [] ''80'' =
     (Some (Wrapped ''send UDP'' (Wrapped ''parse port'' (PortNotSupported 80))), [])"
    using SendMagic_propagates_every_error [of ?mac ok_net "[]" "''80''" "[]"]
      ParseMAC_example_colon getRAddr_empty getPort_example_80 by blast
  have w4: "fst (SendMagic unreachable_net ?mac [] [] []) =
     Some (Wrapped ''send UDP'' (Wrapped ''dial UDP''
        (OpError ''connect: network is unreachable'')))"
    using SendMagic_propagates_every_error [of ?mac unreachable_net "[]" "[]" "[]"]
      ParseMAC_example_colon getRAddr_empty getPort_empty un by simp
  have w5: "fst (SendMagic write_fail_net ?mac [] [] []) =
     Some (Wrapped ''send UDP'' (Wrapped ''write UDP packet''
        (OpError ''sendto: permission denied'')))"
    using SendMagic_propagates_every_error [of ?mac write_fail_net "[]" "[]" "[]"]
      ParseMAC_example_colon getRAddr_empty getPort_empty wf by simp
  have w6: "fst (SendMagic ok_net ?mac [] [] []) = None"
    using SendMagic_propagates_every_error [of ?mac ok_net "[]" "[]" "[]"]
      ParseMAC_example_colon getRAddr_empty getPort_empty ok by simp
  from w1 w2 w3 w4 w5 w6 ParseMAC_example_bad getRAddr_example_bad getPort_example_80
  show ?thesis
    by (simp only: simp_thms)
qed

lemma rejected_MAC_is_not_written:
  assumes "ParseMAC macAddr = Inl e"
  shows "WriteMAC p macAddr = (Some (InvalidMAC macAddr e), p) \<and>
    WriteMAC (writeHeader new_Packet) macAddr =
      (Some (InvalidMAC macAddr e), \<lparr>payload = replicate 6 0xFF\<rparr>) \<and>
    SendMagic nw macAddr [] ip port =
      (Some (Wrapped ''write MAC address'' (InvalidMAC macAddr e)), [])"
  using assms
  by (simp add: WriteMAC_Inl SendMagic_bad_MAC writeHeader_def funpow_WriteByte new_Packet_def)

lemma short_text_rejected:
  "length s < 14 \<Longrightarrow> ParseMAC s = Inl (AddrError ''invalid MAC address'' s)"
  by (simp add: ParseMAC_def)

lemma ParseMAC_error:
  assumes "ParseMAC s = Inl e"
  shows "e = AddrError ''invalid MAC address'' s"
  using assms by (simp add: ParseMAC_def Let_def split: if_splits option.splits)

lemma WriteMAC_on_six_octets_and_on_refusal:
  "(mac48_text s \<longrightarrow>
      WriteMAC p s = (None, p\<lparr>payload := payload p @ concat (replicate 16 (mac48_octets s))\<rparr>)) \<and>
   (length s < 14 \<longrightarrow> fst (WriteMAC p s) \<noteq> None) \<and>
   (\<forall>err p'. WriteMAC p s = (Some err, p') \<longrightarrow>
      err = InvalidMAC s (AddrError ''invalid MAC address'' s) \<and> p' = p)"
proof -
  have "WriteMAC p s = (None, p\<lparr>payload := payload p @ concat (replicate 16 (mac48_octets s))\<rparr>)"
    if "mac48_text s"
    using that by (simp add: WriteMAC_Inr ParseMAC_mac48)
  moreover have "fst (WriteMAC p s) \<noteq> None" if "length s < 14"
    using that by (simp add: WriteMAC_Inl short_text_rejected)
  moreover have "err = InvalidMAC s (AddrError ''invalid MAC address'' s) \<and> p' = p"
    if "WriteMAC p s = (Some err, p')" for err p'
    using that ParseMAC_error by (auto simp: WriteMAC_Some_iff)
  ultimately show ?thesis
    by blast
qed

text \<open>
  Claim C2 says \<open>WriteMAC\<close> accepts the six-octet colon or hyphen forms only. On the
  eight-octet text \<open>01:23:45:67:89:ab:cd:ef\<close>, which is not of that form, \<open>WriteMAC\<close>
  returns \<open>nil\<close> and appends sixteen copies of eight bytes: a payload of 134 bytes.
  (The rest of the claim holds: the six-octet forms are accepted, the empty text is
  refused, and a refusal carries the text: \<open>WriteMAC_on_six_octets_and_on_refusal\<close>.)
\<close>

theorem WriteMAC_accepts_eight_octets:
  "\<not> mac48_text ''01:23:45:67:89:ab:cd:ef'' \<and>
   WriteMAC (writeHeader new_Packet) ''01:23:45:67:89:ab:cd:ef'' =
     (None, \<lparr>payload = replicate 6 0xFF @
        concat (replicate 16 [0x01, 0x23, 0x45, 0x67, 0x89, 0xab, 0xcd, 0xef])\<rparr>) \<and>
   length (payload (snd (WriteMAC (writeHeader new_Packet) ''01:23:45:67:89:ab:cd:ef''))) = 134"
  by (simp add: WriteMAC_Inr [OF ParseMAC_example_eui64] writeHeader_def funpow_WriteByte
      new_Packet_def mac48_text_def length_concat sum_list_replicate)

text \<open>
  Claim C6 says a malformed MAC text makes \<open>WriteMAC\<close> fail, leaves the buffer as it
  was and keeps \<open>SendMagic\<close> from transmitting. On the eight-octet text
  \<open>01:23:45:67:89:ab:cd:ef\<close> \<open>SendMagic\<close> dials the default destination and writes a
  datagram of 134 bytes. (For every text the parser does refuse, the claim holds:
  \<open>rejected_MAC_is_not_written\<close>.)
\<close>

theorem SendMagic_transmits_eight_octets:
  "\<not> mac48_text ''01:23:45:67:89:ab:cd:ef'' \<and>
   SendMagic ok_net ''01:23:45:67:89:ab:cd:ef'' [] [] [] =
     (None,
      [DialUDP \<lparr>IP = IPv4 255 255 255 255, Port = 9\<rparr> None,
       ConnWrite \<lparr>IP = IPv4 255 255 255 255, Port = 9\<rparr>
         (replicate 6 0xFF @ concat (replicate 16 [0x01, 0x23, 0x45, 0x67, 0x89, 0xab, 0xcd, 0xef]))
         None,
       ConnClose \<lparr>IP = IPv4 255 255 255 255, Port = 9\<rparr>])"
proof -
  have ok: "dial ok_net a = None" "conn_write ok_net a b = None" for a b
    by (simp_all add: ok_net_def)
  show ?thesis
    by (simp add: SendMagic_built [OF ParseMAC_example_eui64]
        SendUDP_dialled [OF getRAddr_empty getPort_empty] ok mac48_text_def)
qed

section \<open>\<open>strconv.Atoi\<close> accepts exactly the decimal integers in range\<close>

lemma unat_byte_of_char: "unat (of_char c :: byte) = of_char c"
proof -
  have "(of_char c :: byte) = of_nat (of_char c)"
    by (simp only: of_nat_of_char)
  then have "unat (of_char c :: byte) = of_char c mod 256"
    by (simp add: unat_of_nat)
  then show ?thesis by simp
qed

lemma digit_val_less: "is_digit c \<Longrightarrow> digit_val c < 10"
  unfolding is_digit_def digit_val_def in_range_def by simp arith

lemma atoi_ch_unat:
  "unat ((of_char c :: byte) - 48) =
    (if 48 \<le> (of_char c :: nat) then of_char c - 48 else of_char c + 208)"
proof -
  have "unat ((of_char c :: byte) - 48) =
      (if unat (48 :: byte) \<le> unat (of_char c :: byte)
       then unat (of_char c :: byte) - unat (48 :: byte)
       else unat (of_char c :: byte) + 2 ^ size (of_char c :: byte) - unat (48 :: byte))"
    by (rule unat_sub_if_size)
  then show ?thesis
    by (simp add: unat_byte_of_char word_size)
qed

lemma atoi_ch_gt: "(of_char c :: byte) - 48 > 9 \<longleftrightarrow> \<not> is_digit c"
proof -
  have "(of_char c :: byte) - 48 > 9 \<longleftrightarrow> unat ((of_char c :: byte) - 48) > 9"
    by (simp add: word_less_nat_alt)
  also have "\<dots> \<longleftrightarrow> \<not> is_digit c"
    by (simp add: atoi_ch_unat is_digit_def in_range_def) arith
  finally show ?thesis .
qed

lemma atoi_ch_uint:
  "is_digit c \<Longrightarrow> uint ((of_char c :: byte) - 48) = int (digit_val c)"
proof -
  assume "is_digit c"
  then have "48 \<le> (of_char c :: nat)"
    by (simp add: is_digit_def in_range_def)
  then have "unat ((of_char c :: byte) - 48) = digit_val c"
    by (simp add: atoi_ch_unat digit_val_def)
  then show ?thesis
    by (simp add: uint_nat)
qed

lemma atoi_fast_eq:
  "0 \<le> n \<Longrightarrow> atoi_fast cs n =
    (if list_all is_digit cs then Some (int (decimal_from (nat n) cs)) else None)"
proof (induction cs arbitrary: n)
  case Nil
  then show ?case by (simp add: decimal_from_def)
next
  case (Cons c cs)
  show ?case
  proof (cases "is_digit c")
    case False
    then show ?thesis by (simp add: atoi_ch_gt Let_def)
  next
    case True
    have "nat (n * 10 + int (digit_val c)) = nat n * 10 + digit_val c"
      using Cons.prems by (simp add: nat_add_distrib nat_mult_distrib)
    with True Cons.prems Cons.IH [of "n * 10 + int (digit_val c)"] show ?thesis
      by (simp add: atoi_ch_gt atoi_ch_uint Let_def decimal_from_def)
  qed
qed

lemma digit_byte_iff:
  "(48 \<le> (of_char c :: byte) \<and> (of_char c :: byte) \<le> 57) \<longleftrightarrow> is_digit c"
  by (simp add: word_le_nat_alt unat_byte_of_char is_digit_def in_range_def)

lemma digit_byte_small: "is_digit c \<Longrightarrow> \<not> 10 \<le> (of_char c :: byte) - 48"
  using atoi_ch_gt [of c] by (simp add: word_le_nat_alt word_less_nat_alt)

lemma digit_byte_unat: "is_digit c \<Longrightarrow> unat ((of_char c :: byte) - 48) = digit_val c"
  by (simp add: atoi_ch_unat digit_val_def is_digit_def in_range_def)

lemma letter_byte_large: "97 \<le> (b :: byte) \<Longrightarrow> b \<le> 122 \<Longrightarrow> 10 \<le> b - 87"
  by unat_arith

lemma decimal_from_mono: "n \<le> decimal_from n cs"
proof (induction cs arbitrary: n)
  case Nil
  show ?case by (simp add: decimal_from_def)
next
  case (Cons c cs)
  have "n \<le> n * 10 + digit_val c" by simp
  also have "\<dots> \<le> decimal_from (n * 10 + digit_val c) cs" by (rule Cons.IH)
  finally show ?case by (simp add: decimal_from_def)
qed

lemma decimal_from_Cons: "decimal_from n (c # cs) = decimal_from (n * 10 + digit_val c) cs"
  by (simp add: decimal_from_def)

lemma decimal_from_bound:
  "list_all is_digit cs \<Longrightarrow> decimal_from n cs < (n + 1) * 10 ^ length cs"
proof (induction cs arbitrary: n)
  case Nil
  show ?case by (simp add: decimal_from_def)
next
  case (Cons c cs)
  then have d: "digit_val c < 10" and rest: "list_all is_digit cs"
    by (simp_all add: digit_val_less)
  have "decimal_from (n * 10 + digit_val c) cs < (n * 10 + digit_val c + 1) * 10 ^ length cs"
    using rest by (rule Cons.IH)
  also have "\<dots> \<le> ((n + 1) * 10) * 10 ^ length cs"
    using d by (intro mult_right_mono) simp_all
  also have "\<dots> = (n + 1) * 10 ^ length (c # cs)"
    by (simp add: algebra_simps)
  finally show ?case
    by (simp only: decimal_from_Cons)
qed

lemma parseUint_loop_digits:
  assumes "list_all is_digit cs" "n < 2 ^ 64"
  shows "parseUint_loop cs n =
    (if decimal_from n cs < 2 ^ 64 then (decimal_from n cs, None) else (maxUint64, Some ErrRange))"
  using assms
proof (induction cs arbitrary: n)
  case Nil
  then show ?case by (simp add: decimal_from_def)
next
  case (Cons c cs)
  then have c: "is_digit c" and rest: "list_all is_digit cs"
    by simp_all
  let ?d = "digit_val c"
  have d: "?d < 10" using c by (rule digit_val_less)
  let ?n1 = "n * 10 + ?d"
  have ge: "?n1 \<le> decimal_from n (c # cs)"
    by (simp add: decimal_from_Cons decimal_from_mono)
  show ?case
  proof (cases "n \<ge> maxUint64 div 10 + 1")
    case True
    then have "2 ^ 64 \<le> ?n1"
      by (simp add: maxUint64_def)
    with ge have "\<not> decimal_from n (c # cs) < 2 ^ 64"
      by simp
    with True c show ?thesis
      by (simp add: digit_byte_iff digit_byte_small Let_def)
  next
    case False
    then have n10: "n * 10 < 2 ^ 64"
      by (simp add: maxUint64_def)
    show ?thesis
    proof (cases "?n1 < 2 ^ 64")
      case True
      then have "?n1 mod 2 ^ 64 = ?n1" by simp
      moreover have "parseUint_loop cs ?n1 =
          (if decimal_from ?n1 cs < 2 ^ 64 then (decimal_from ?n1 cs, None)
           else (maxUint64, Some ErrRange))"
        using rest True by (rule Cons.IH)
      ultimately show ?thesis
        using False c True
        by (simp add: digit_byte_iff digit_byte_small digit_byte_unat Let_def
            decimal_from_Cons maxUint64_def)
    next
      case wrap: False
      then have "?n1 mod 2 ^ 64 = ?n1 - 2 ^ 64"
        using n10 d by (simp add: mod_if)
      moreover have "?n1 - 2 ^ 64 < n * 10"
        using wrap d by simp
      moreover have "\<not> decimal_from n (c # cs) < 2 ^ 64"
        using ge wrap by simp
      ultimately show ?thesis
        using False c
        by (simp add: digit_byte_iff digit_byte_small digit_byte_unat Let_def)
    qed
  qed
qed

lemma parseUint_loop_other:
  assumes "\<not> list_all is_digit cs"
  shows "parseUint_loop cs n = (0, Some ErrSyntax) \<or>
    parseUint_loop cs n = (maxUint64, Some ErrRange)"
  using assms
proof (induction cs arbitrary: n)
  case Nil
  then show ?case by simp
next
  case (Cons c cs)
  show ?case
  proof (cases "is_digit c")
    case False
    then show ?thesis
      by (simp add: digit_byte_iff letter_byte_large Let_def)
  next
    case True
    with Cons.prems have rest: "\<not> list_all is_digit cs" by simp
    show ?thesis
      using True Cons.IH [OF rest]
      by (simp add: digit_byte_iff digit_byte_small Let_def)
  qed
qed

lemma ParseUint_digits:
  assumes "ds \<noteq> []" "list_all is_digit ds"
  shows "ParseUint ds =
    (if decimal ds < 2 ^ 64 then (decimal ds, None) else (maxUint64, Some ErrRange))"
  using assms by (simp add: ParseUint_def parseUint_loop_digits decimal_def)

lemma ParseUint_other:
  assumes "ds = [] \<or> \<not> list_all is_digit ds"
  shows "ParseUint ds = (0, Some ErrSyntax) \<or> ParseUint ds = (maxUint64, Some ErrRange)"
  using assms parseUint_loop_other [of ds 0] by (auto simp: ParseUint_def)

lemma ParseInt_unfold:
  assumes "s \<noteq> []"
  shows "ParseInt s =
    (case ParseUint (unsigned s) of
       (un, err) \<Rightarrow>
         if err \<noteq> None \<and> err \<noteq> Some ErrRange then (0, err)
         else if hd s \<noteq> CHR ''-'' \<and> un \<ge> 2 ^ 63 then (2 ^ 63 - 1, Some ErrRange)
         else if hd s = CHR ''-'' \<and> un > 2 ^ 63 then (- (2 ^ 63), Some ErrRange)
         else (if hd s = CHR ''-'' then neg64 (int64 un) else int64 un, None))"
proof -
  from assms obtain c cs where s: "s = c # cs" by (cases s) auto
  have u: "(if c = CHR ''+'' \<or> c = CHR ''-'' then cs else c # cs) = unsigned s"
    by (simp add: s unsigned_def signed_def)
  have "ParseInt s =
    (let (un, err) = ParseUint (unsigned s); cutoff = 2 ^ (intSize - 1) in
       if err \<noteq> None \<and> err \<noteq> Some ErrRange then (0, err)
       else if \<not> c = CHR ''-'' \<and> un \<ge> cutoff then (int cutoff - 1, Some ErrRange)
       else if c = CHR ''-'' \<and> un > cutoff then (- int cutoff, Some ErrRange)
       else (if c = CHR ''-'' then neg64 (int64 un) else int64 un, None))"
    unfolding ParseInt_def u [symmetric] by (simp add: s Let_def)
  then show ?thesis
    by (simp add: s Let_def intSize_def split: prod.split)
qed

lemma ParseInt_syntax:
  assumes "s \<noteq> []" "ParseUint (unsigned s) = (0, Some ErrSyntax)"
  shows "snd (ParseInt s) \<noteq> None"
  by (simp add: ParseInt_unfold [OF assms(1)] assms(2))

lemma ParseInt_range:
  assumes "s \<noteq> []" "ParseUint (unsigned s) = (maxUint64, Some ErrRange)"
  shows "snd (ParseInt s) \<noteq> None"
  by (simp add: ParseInt_unfold [OF assms(1)] assms(2) maxUint64_def)

lemma ParseInt_value:
  assumes "s \<noteq> []" "ParseUint (unsigned s) = (decimal (unsigned s), None)"
  shows "if in_int64 (int_value s) then ParseInt s = (int_value s, None)
         else snd (ParseInt s) \<noteq> None"
  using assms(1)
  by (simp add: ParseInt_unfold [OF assms(1)] assms(2) int_value_def in_int64_def
      int64_def neg64_def)

lemma Atoi_slow:
  assumes "s = [] \<or> 19 \<le> length s"
  shows "Atoi s =
    (case ParseInt s of (i64, Some e) \<Rightarrow> Inl (NumError ''Atoi'' s e) | (i64, None) \<Rightarrow> Inr i64)"
  using assms by (auto simp: Atoi_def intSize_def)

lemma Atoi_slow_error:
  assumes "s = [] \<or> 19 \<le> length s" "snd (ParseInt s) \<noteq> None"
  shows "\<exists>k. Atoi s = Inl (NumError ''Atoi'' s k)"
  using assms(2) by (cases "ParseInt s") (auto simp: Atoi_slow [OF assms(1)])

lemma Atoi_fast:
  assumes "s \<noteq> []" "length s < 19"
  shows "Atoi s =
    (if signed s \<and> unsigned s = [] then Inl (NumError ''Atoi'' s ErrSyntax)
     else (case atoi_fast (unsigned s) 0 of
             None \<Rightarrow> Inl (NumError ''Atoi'' s ErrSyntax)
           | Some n \<Rightarrow> Inr (if hd s = CHR ''-'' then - n else n)))"
proof -
  from assms(1) obtain c cs where s: "s = c # cs" by (cases s) auto
  have u: "(if c = CHR ''-'' \<or> c = CHR ''+'' then cs else c # cs) = unsigned s"
    by (auto simp: s unsigned_def signed_def)
  have sg: "(c = CHR ''-'' \<or> c = CHR ''+'') = signed s"
    by (auto simp: s signed_def)
  have "Atoi (c # cs) =
    (let ds = (if c = CHR ''-'' \<or> c = CHR ''+'' then cs else c # cs) in
     if (c = CHR ''-'' \<or> c = CHR ''+'') \<and> length ds < 1 then Inl (syntaxError ''Atoi'' (c # cs))
     else (case atoi_fast ds 0 of
             None \<Rightarrow> Inl (syntaxError ''Atoi'' (c # cs))
           | Some n \<Rightarrow> Inr (if c = CHR ''-'' then - n else n)))"
    using assms(2)
    by (simp add: Atoi_def s intSize_def Let_def del: atoi_fast.simps cong: option.case_cong)
  then show ?thesis
    by (auto simp add: s unsigned_def signed_def syntaxError_def Let_def
        simp del: atoi_fast.simps cong: option.case_cong)
qed

lemma Atoi_cases:
  "if unsigned s \<noteq> [] \<and> list_all is_digit (unsigned s) \<and> in_int64 (int_value s)
   then Atoi s = Inr (int_value s)
   else (\<exists>k. Atoi s = Inl (NumError ''Atoi'' s k))"
proof (cases "s = [] \<or> 19 \<le> length s")
  case slow: True
  show ?thesis
  proof (cases "s = []")
    case True
    then show ?thesis
      by (simp add: Atoi_slow ParseInt_def unsigned_def signed_def)
  next
    case False
    show ?thesis
    proof (cases "unsigned s \<noteq> [] \<and> list_all is_digit (unsigned s)")
      case digits: True
      show ?thesis
      proof (cases "decimal (unsigned s) < 2 ^ 64")
        case True
        with digits have "ParseUint (unsigned s) = (decimal (unsigned s), None)"
          by (simp add: ParseUint_digits)
        note pv = ParseInt_value [OF False this]
        show ?thesis
        proof (cases "in_int64 (int_value s)")
          case True
          with pv have "ParseInt s = (int_value s, None)" by simp
          then have "Atoi s = Inr (int_value s)"
            by (simp add: Atoi_slow [OF slow])
          with digits True show ?thesis by simp
        next
          case False
          with pv have "snd (ParseInt s) \<noteq> None" by simp
          then have "\<exists>k. Atoi s = Inl (NumError ''Atoi'' s k)"
            by (rule Atoi_slow_error [OF slow])
          with False show ?thesis by simp
        qed
      next
        case big: False
        with digits have "ParseUint (unsigned s) = (maxUint64, Some ErrRange)"
          by (simp add: ParseUint_digits)
        from ParseInt_range [OF False this] have "\<exists>k. Atoi s = Inl (NumError ''Atoi'' s k)"
          by (rule Atoi_slow_error [OF slow])
        moreover from big have "\<not> in_int64 (int_value s)"
          by (simp add: in_int64_def int_value_def)
        ultimately show ?thesis by simp
      qed
    next
      case other: False
      then have "ParseUint (unsigned s) = (0, Some ErrSyntax) \<or>
          ParseUint (unsigned s) = (maxUint64, Some ErrRange)"
        by (intro ParseUint_other) auto
      then have "snd (ParseInt s) \<noteq> None"
        using ParseInt_syntax [OF False] ParseInt_range [OF False] by blast
      then have "\<exists>k. Atoi s = Inl (NumError ''Atoi'' s k)"
        by (rule Atoi_slow_error [OF slow])
      with other show ?thesis by auto
    qed
  qed
next
  case False
  then have ne: "s \<noteq> []" and len: "length s < 19" by simp_all
  show ?thesis
  proof (cases "unsigned s \<noteq> [] \<and> list_all is_digit (unsigned s)")
    case digits: True
    have "length (unsigned s) \<le> 18"
      using len by (cases s) (simp_all add: unsigned_def)
    then have "(10::nat) ^ length (unsigned s) \<le> 10 ^ 18"
      by (intro power_increasing) simp_all
    moreover have "decimal (unsigned s) < (0 + 1) * 10 ^ length (unsigned s)"
      unfolding decimal_def using digits by (intro decimal_from_bound) simp
    ultimately have "decimal (unsigned s) < 10 ^ 18"
      by simp
    then have "in_int64 (int_value s)"
      by (simp add: in_int64_def int_value_def)
    moreover have "Atoi s = Inr (int_value s)"
      using digits ne
      by (simp add: Atoi_fast [OF ne len] atoi_fast_eq int_value_def decimal_def)
    ultimately show ?thesis
      using digits by simp
  next
    case other: False
    with ne have "\<exists>k. Atoi s = Inl (NumError ''Atoi'' s k)"
      by (auto simp: Atoi_fast [OF ne len] atoi_fast_eq unsigned_def)
    with other show ?thesis by auto
  qed
qed

lemma Atoi_Inr_iff: "Atoi s = Inr n \<longleftrightarrow> int_text s n \<and> in_int64 n"
  using Atoi_cases [of s] by (auto simp: int_text_def split: if_splits)

lemma Atoi_Inl: "Atoi s = Inl e \<Longrightarrow> \<exists>k. e = NumError ''Atoi'' s k"
  using Atoi_cases [of s] by (auto split: if_splits)

lemma in_int64_ports: "in_int64 0" "in_int64 7" "in_int64 9"
  by (simp_all add: in_int64_def)

lemma getPort_nonempty:
  assumes "port \<noteq> []"
  shows "getPort port =
    (case Atoi port of
       Inl err \<Rightarrow> Inl (InvalidPort port err)
     | Inr portNum \<Rightarrow>
         if portNum = 0 \<or> portNum = 7 \<or> portNum = 9 then Inr portNum
         else Inl (PortNotSupported portNum))"
  using assms by (auto simp: getPort_def acceptedPorts_def split: sum.split)

text \<open>
  Claim C5. \<open>getPort\<close> returns 9 for the empty text. For any other text it succeeds
  with \<open>n\<close> exactly when the text is a decimal integer (digits, with an optional sign) whose
  value \<open>n\<close> is 0, 7 or 9; every other text gives an error: the wrapped \<open>Atoi\<close> error when
  the text is not an integer in range, "port not supported" when it is another integer.
\<close>

theorem getPort_resolves:
  "(getPort port = Inr n \<longleftrightarrow>
      port = [] \<and> n = 9 \<or> int_text port n \<and> (n = 0 \<or> n = 7 \<or> n = 9)) \<and>
   (\<forall>e. getPort port = Inl e \<longrightarrow>
      port \<noteq> [] \<and>
      ((\<exists>k. e = InvalidPort port (NumError ''Atoi'' port k)) \<or>
       (\<exists>m. e = PortNotSupported m \<and> int_text port m \<and> m \<noteq> 0 \<and> m \<noteq> 7 \<and> m \<noteq> 9)))"
  (is "?accepts \<and> ?refuses")
proof (cases "port = []")
  case True
  have "\<not> int_text [] n"
    by (simp add: int_text_def unsigned_def signed_def)
  moreover have "getPort [] = Inr 9"
    by (simp add: getPort_def defaultPort_def)
  ultimately show ?thesis
    using True by auto
next
  case False
  note body = getPort_nonempty [OF False]
  show ?thesis
  proof (cases "Atoi port")
    case (Inl err)
    then obtain k where k: "err = NumError ''Atoi'' port k"
      using Atoi_Inl by blast
    have result: "getPort port = Inl (InvalidPort port (NumError ''Atoi'' port k))"
      by (simp add: body Inl k)
    have "\<not> (int_text port v \<and> in_int64 v)" for v
      using Inl by (simp add: Atoi_Inr_iff [symmetric])
    from this [of 0] this [of 7] this [of 9]
    have "\<not> int_text port 0" "\<not> int_text port 7" "\<not> int_text port 9"
      by (simp_all add: in_int64_ports)
    then have "\<not> (int_text port n \<and> (n = 0 \<or> n = 7 \<or> n = 9))"
      by blast
    then have "?accepts"
      using False by (simp add: result)
    moreover have "?refuses"
      using False by (simp add: result)
    ultimately show ?thesis ..
  next
    case (Inr m)
    then have m: "int_text port m"
      by (simp add: Atoi_Inr_iff)
    have unique: "v = m" if "int_text port v" for v
      using that m by (simp add: int_text_def)
    show ?thesis
    proof (cases "m = 0 \<or> m = 7 \<or> m = 9")
      case True
      then have result: "getPort port = Inr m"
        by (simp add: body Inr)
      have "?accepts"
      proof
        assume "getPort port = Inr n"
        with result have "n = m" by simp
        with m True show "port = [] \<and> n = 9 \<or> int_text port n \<and> (n = 0 \<or> n = 7 \<or> n = 9)"
          by simp
      next
        assume "port = [] \<and> n = 9 \<or> int_text port n \<and> (n = 0 \<or> n = 7 \<or> n = 9)"
        with False have "int_text port n" by simp
        then have "n = m" by (rule unique)
        with result show "getPort port = Inr n" by simp
      qed
      moreover have "?refuses"
        by (simp add: result)
      ultimately show ?thesis ..
    next
      case other: False
      then have result: "getPort port = Inl (PortNotSupported m)"
        by (simp add: body Inr)
      have "\<not> (int_text port n \<and> (n = 0 \<or> n = 7 \<or> n = 9))"
      proof
        assume *: "int_text port n \<and> (n = 0 \<or> n = 7 \<or> n = 9)"
        then have "n = m" by (intro unique) simp
        with * other show False by simp
      qed
      then have "?accepts"
        using False by (simp add: result)
      moreover have "?refuses"
        using False other m by (simp add: result)
      ultimately show ?thesis ..
    qed
  qed
qed

lemma int_text_examples: "int_text ''7'' 7" "int_text ''+9'' 9" "int_text ''80'' 80"
  by (simp_all add: int_text_def unsigned_def signed_def int_value_def decimal_def
      decimal_from_def digit_val_def is_digit_def in_range_def)

theorem getPort_resolves_witness:
  "getPort [] = Inr 9 \<and> int_text ''7'' 7 \<and> getPort ''7'' = Inr 7 \<and>
   int_text ''+9'' 9 \<and> getPort ''+9'' = Inr 9 \<and>
   getPort ''80'' = Inl (PortNotSupported 80) \<and> \<not> int_text ''80'' 9 \<and>
   getPort ''80'' \<noteq> Inr 9"
proof -
  have e: "getPort [] = Inr 9"
    using getPort_resolves [of "[]" 9] by simp
  have s: "getPort ''7'' = Inr 7"
    using getPort_resolves [of "''7''" 7] int_text_examples(1) by simp
  have p: "getPort ''+9'' = Inr 9"
    using getPort_resolves [of "''+9''" 9] int_text_examples(2) by simp
  have n: "\<not> int_text ''80'' 9"
    by (simp add: int_text_def unsigned_def signed_def int_value_def decimal_def
      decimal_from_def digit_val_def)
  then have r: "getPort ''80'' \<noteq> Inr 9"
    using getPort_resolves [of "''80''" 9] by simp
  from e s p n r int_text_examples getPort_example_80 show ?thesis
    by (simp only: simp_thms)
qed

section \<open>\<open>parseIPv4\<close> accepts exactly the strict dotted quads\<close>

lemma of_char_digit_char: "d < 10 \<Longrightarrow> (of_char (digit_char d) :: nat) = 48 + d"
  by (simp add: digit_char_def)

lemma is_digit_digit_char: "d < 10 \<Longrightarrow> in_range (CHR ''0'') (digit_char d) (CHR ''9'')"
  by (simp add: in_range_def of_char_digit_char)

lemma digit_char_not_dot: "d < 10 \<Longrightarrow> digit_char d \<noteq> CHR ''.''"
proof
  assume "d < 10" "digit_char d = CHR ''.''"
  then have "(of_char (digit_char d) :: nat) = of_char (CHR ''.'')" by simp
  with \<open>d < 10\<close> show False by (simp add: of_char_digit_char)
qed

lemma parseIPv4_loop_digit:
  assumes "d < 10" "\<not> (digLen = 1 \<and> val = 0)" "val * 10 + d \<le> 255"
  shows "parseIPv4_loop s (digit_char d # cs) i val pos digLen flds =
    parseIPv4_loop s cs (i + 1) (val * 10 + d) pos (digLen + 1) flds"
  using assms by (auto simp add: is_digit_digit_char of_char_digit_char Let_def)

lemma dec_byte_run:
  assumes "v \<le> 255"
  shows "parseIPv4_loop s (dec_byte v @ rest) i 0 pos 0 flds =
    parseIPv4_loop s rest (i + length (dec_byte v)) v pos (length (dec_byte v)) flds"
proof -
  consider "v < 10" | "10 \<le> v" "v < 100" | "100 \<le> v" by linarith
  then show ?thesis
  proof cases
    case 1
    then show ?thesis
      by (simp add: dec_byte_def parseIPv4_loop_digit del: parseIPv4_loop.simps)
  next
    case 2
    then have hi: "v div 10 < 10" "v div 10 \<noteq> 0" and lo: "v mod 10 < 10"
      by simp_all
    have "parseIPv4_loop s (dec_byte v @ rest) i 0 pos 0 flds =
        parseIPv4_loop s (digit_char (v mod 10) # rest) (i + 1) (0 * 10 + v div 10) pos (0 + 1) flds"
      using 2 hi by (simp add: dec_byte_def parseIPv4_loop_digit del: parseIPv4_loop.simps)
    also have "\<dots> = parseIPv4_loop s rest (i + 1 + 1) ((0 * 10 + v div 10) * 10 + v mod 10) pos
        (0 + 1 + 1) flds"
      using hi lo assms by (intro parseIPv4_loop_digit) simp_all
    finally show ?thesis
      using 2 by (simp add: dec_byte_def)
  next
    case 3
    with assms have hi: "v div 100 < 10" "v div 100 \<noteq> 0" and mid: "v div 10 mod 10 < 10"
      and lo: "v mod 10 < 10"
      by simp_all
    have "v div (10 * 10) = v div 10 div 10"
      by (rule div_mult2_eq)
    then have two: "v div 100 * 10 + v div 10 mod 10 = v div 10"
      by simp
    have "parseIPv4_loop s (dec_byte v @ rest) i 0 pos 0 flds =
        parseIPv4_loop s (digit_char (v div 10 mod 10) # digit_char (v mod 10) # rest)
          (i + 1) (0 * 10 + v div 100) pos (0 + 1) flds"
      using 3 hi by (simp add: dec_byte_def parseIPv4_loop_digit del: parseIPv4_loop.simps)
    also have "\<dots> = parseIPv4_loop s (digit_char (v mod 10) # rest) (i + 1 + 1)
        ((0 * 10 + v div 100) * 10 + v div 10 mod 10) pos (0 + 1 + 1) flds"
      using hi mid assms by (intro parseIPv4_loop_digit) simp_all
    also have "\<dots> = parseIPv4_loop s rest (i + 1 + 1 + 1)
        (((0 * 10 + v div 100) * 10 + v div 10 mod 10) * 10 + v mod 10) pos (0 + 1 + 1 + 1) flds"
      using hi mid lo assms two by (intro parseIPv4_loop_digit) simp_all
    finally show ?thesis
      using 3 two by (simp add: dec_byte_def)
  qed
qed

lemma dec_byte_nonempty: "dec_byte v \<noteq> []"
  by (simp add: dec_byte_def)

lemma last_dec_byte: "last (dec_byte v) = digit_char (v mod 10)"
  by (simp add: dec_byte_def)

lemma last_dec_byte_not_dot: "last (dec_byte v) \<noteq> CHR ''.''"
  by (simp add: last_dec_byte digit_char_not_dot)

lemma parseIPv4_loop_dot:
  assumes "s = pre @ CHR ''.'' # rest" "pre \<noteq> []" "last pre \<noteq> CHR ''.''" "rest \<noteq> []"
    "pos < 3"
  shows "parseIPv4_loop s (CHR ''.'' # rest) (length pre) val pos digLen flds =
    parseIPv4_loop s rest (length pre + 1) 0 (pos + 1) 0 (flds[pos := of_nat val])"
proof -
  have "s ! (length pre - 1) = last pre"
    using assms(2) by (simp add: assms(1) nth_append last_conv_nth)
  moreover have "length pre \<noteq> length s - 1"
    using assms(4) by (simp add: assms(1))
  ultimately show ?thesis
    using assms(2,3,5) by (simp add: in_range_def)
qed

lemma parseIPv4_loop_end:
  "\<not> pos < 3 \<Longrightarrow> parseIPv4_loop s [] i val pos digLen flds = Some (flds[3 := of_nat val])"
  by simp

lemma parseIPv4_dotted_quad: "parseIPv4 (dotted_quad a b c d) = Some [a, b, c, d]"
proof -
  let ?A = "dec_byte (unat a)" and ?B = "dec_byte (unat b)"
    and ?C = "dec_byte (unat c)" and ?D = "dec_byte (unat d)"
  let ?s = "dotted_quad a b c d"
  let ?f0 = "[0, 0, 0, 0] :: byte list"
  note [simp del] = parseIPv4_loop.simps
  have bound: "unat x \<le> 255" for x :: byte
    using unsigned_less [of x, where 'a = nat] by simp
  have s2: "?s = ?A @ CHR ''.'' # (?B @ CHR ''.'' # ?C @ CHR ''.'' # ?D)"
    and s3: "?s = (?A @ CHR ''.'' # ?B) @ CHR ''.'' # (?C @ CHR ''.'' # ?D)"
    and s4: "?s = (?A @ CHR ''.'' # ?B @ CHR ''.'' # ?C) @ CHR ''.'' # ?D"
    by (simp_all add: dotted_quad_def)
  have "parseIPv4 ?s =
      parseIPv4_loop ?s (?A @ CHR ''.'' # ?B @ CHR ''.'' # ?C @ CHR ''.'' # ?D) 0 0 0 0 ?f0"
    by (simp add: parseIPv4_def dotted_quad_def)
  also have "\<dots> = parseIPv4_loop ?s (CHR ''.'' # ?B @ CHR ''.'' # ?C @ CHR ''.'' # ?D)
      (0 + length ?A) (unat a) 0 (length ?A) ?f0"
    by (rule dec_byte_run [OF bound])
  also have "\<dots> = parseIPv4_loop ?s (?B @ CHR ''.'' # ?C @ CHR ''.'' # ?D)
      (length ?A + 1) 0 (0 + 1) 0 (?f0[0 := of_nat (unat a)])"
    using parseIPv4_loop_dot [OF s2, of 0 "unat a" "length ?A" ?f0]
    by (simp add: dec_byte_nonempty last_dec_byte_not_dot add.assoc)
  also have "\<dots> = parseIPv4_loop ?s (CHR ''.'' # ?C @ CHR ''.'' # ?D)
      (length ?A + 1 + length ?B) (unat b) (0 + 1) (length ?B) (?f0[0 := of_nat (unat a)])"
    by (rule dec_byte_run [OF bound])
  also have "\<dots> = parseIPv4_loop ?s (?C @ CHR ''.'' # ?D)
      (length (?A @ CHR ''.'' # ?B) + 1) 0 (0 + 1 + 1) 0
      (?f0[0 := of_nat (unat a), 0 + 1 := of_nat (unat b)])"
    using parseIPv4_loop_dot [OF s3, of "0 + 1" "unat b" "length ?B" "?f0[0 := of_nat (unat a)]"]
    by (simp add: dec_byte_nonempty last_dec_byte_not_dot add.assoc)
  also have "\<dots> = parseIPv4_loop ?s (CHR ''.'' # ?D)
      (length (?A @ CHR ''.'' # ?B) + 1 + length ?C) (unat c) (0 + 1 + 1) (length ?C)
      (?f0[0 := of_nat (unat a), 0 + 1 := of_nat (unat b)])"
    by (rule dec_byte_run [OF bound])
  also have "\<dots> = parseIPv4_loop ?s ?D
      (length (?A @ CHR ''.'' # ?B @ CHR ''.'' # ?C) + 1) 0 (0 + 1 + 1 + 1) 0
      (?f0[0 := of_nat (unat a), 0 + 1 := of_nat (unat b), 0 + 1 + 1 := of_nat (unat c)])"
    using parseIPv4_loop_dot [OF s4, of "0 + 1 + 1" "unat c" "length ?C"
        "?f0[0 := of_nat (unat a), 0 + 1 := of_nat (unat b)]"]
    by (simp add: dec_byte_nonempty last_dec_byte_not_dot add.assoc)
  also have "\<dots> = parseIPv4_loop ?s (?D @ [])
      (length (?A @ CHR ''.'' # ?B @ CHR ''.'' # ?C) + 1) 0 (0 + 1 + 1 + 1) 0
      (?f0[0 := of_nat (unat a), 0 + 1 := of_nat (unat b), 0 + 1 + 1 := of_nat (unat c)])"
    by simp
  also have "\<dots> = parseIPv4_loop ?s []
      (length (?A @ CHR ''.'' # ?B @ CHR ''.'' # ?C) + 1 + length ?D) (unat d) (0 + 1 + 1 + 1)
      (length ?D)
      (?f0[0 := of_nat (unat a), 0 + 1 := of_nat (unat b), 0 + 1 + 1 := of_nat (unat c)])"
    by (rule dec_byte_run [OF bound])
  also have "\<dots> = Some [a, b, c, d]"
    by (simp add: parseIPv4_loop_end numeral_3_eq_3)
  finally show ?thesis .
qed

lemma digit_char_inverse:
  assumes "in_range (CHR ''0'') c (CHR ''9'')"
  shows "digit_char (of_char c - 48) = c"
proof -
  from assms have "48 + ((of_char c :: nat) - 48) = of_char c"
    by (simp add: in_range_def)
  then show ?thesis
    by (simp add: digit_char_def)
qed

lemma dec_byte_digit: "d < 10 \<Longrightarrow> dec_byte d = [digit_char d]"
  by (simp add: dec_byte_def)

lemma dec_byte_snoc:
  assumes "1 \<le> v" "d < 10" "v * 10 + d \<le> 255"
  shows "dec_byte (v * 10 + d) = dec_byte v @ [digit_char d]"
proof (cases "v < 10")
  case True
  with assms have "(v * 10 + d) div 10 = v" "(v * 10 + d) mod 10 = d"
    "\<not> v * 10 + d < 10" "v * 10 + d < 100"
    by simp_all
  with True show ?thesis
    by (simp add: dec_byte_def)
next
  case False
  with assms have v: "10 \<le> v" "v < 100" by simp_all
  have "(v * 10 + d) div (10 * 10) = (v * 10 + d) div 10 div 10"
    by (rule div_mult2_eq)
  with assms(2) have "(v * 10 + d) div 100 = v div 10" "(v * 10 + d) div 10 mod 10 = v mod 10"
    "(v * 10 + d) mod 10 = d"
    by simp_all
  moreover from v have "\<not> v * 10 + d < 100" by simp
  ultimately show ?thesis
    using v by (simp add: dec_byte_def)
qed

lemma unat_byte_of_nat: "v \<le> 255 \<Longrightarrow> unat (of_nat v :: byte) = v"
  by (simp add: unat_of_nat)

lemma parseIPv4_loop_sound:
  assumes "parseIPv4_loop s cs i val pos digLen flds = Some r"
    and "s = pre @ cs" "i = length pre"
    and "length flds = 4" "pos \<le> 3" "val \<le> 255"
    and "pre = concat (map (\<lambda>f. dec_byte (unat f) @ ''.'') (take pos flds)) @ cur"
    and "digLen = 0 \<longrightarrow> cur = [] \<and> val = 0"
    and "digLen \<noteq> 0 \<longrightarrow> cur = dec_byte val \<and> digLen = length cur"
    and "digLen = 0 \<longrightarrow> 0 < pos \<longrightarrow> cs \<noteq> []"
  shows "\<exists>a b c d. s = dotted_quad a b c d \<and> r = [a, b, c, d]"
  using assms
proof (induction cs arbitrary: pre i val pos digLen flds cur)
  case Nil
  from Nil.prems(1) have pos: "pos = 3" and r: "r = flds[3 := of_nat val]"
    using Nil.prems(5) by (simp_all split: if_splits)
  with Nil.prems(10) have "digLen \<noteq> 0" by auto
  with Nil.prems(9) have cur: "cur = dec_byte val" by simp
  from Nil.prems(4) obtain f0 f1 f2 f3 where flds: "flds = [f0, f1, f2, f3]"
    by (auto simp: length_Suc_conv numeral_eq_Suc)
  have "s = dotted_quad f0 f1 f2 (of_nat val)"
    using Nil.prems(2,7,6)
    by (simp add: pos flds cur dotted_quad_def unat_byte_of_nat numeral_3_eq_3)
  moreover have "r = [f0, f1, f2, of_nat val]"
    by (simp add: r flds numeral_3_eq_3)
  ultimately show ?case by blast
next
  case (Cons c cs)
  show ?case
  proof (cases "in_range (CHR ''0'') c (CHR ''9'')")
    case True
    let ?d = "(of_char c :: nat) - 48"
    have d: "?d < 10"
      using True by (simp add: in_range_def) arith
    have c48: "48 \<le> (of_char c :: nat)"
      using True by (simp add: in_range_def)
    from Cons.prems(1) True have nz: "\<not> (digLen = 1 \<and> val = 0)"
      and small: "val * 10 + ?d \<le> 255"
      and run: "parseIPv4_loop s cs (i + 1) (val * 10 + ?d) pos (digLen + 1) flds = Some r"
      using c48 by (simp_all add: Let_def split: if_splits)
    have cur': "cur @ [c] = dec_byte (val * 10 + ?d) \<and> digLen + 1 = length (cur @ [c])"
    proof (cases "digLen = 0")
      case True
      with Cons.prems(8) have "cur = []" "val = 0" by simp_all
      with d \<open>in_range (CHR ''0'') c (CHR ''9'')\<close> True show ?thesis
        by (simp add: dec_byte_digit digit_char_inverse)
    next
      case False
      with Cons.prems(9) have cur: "cur = dec_byte val" "digLen = length cur" by simp_all
      have "val \<noteq> 0"
      proof
        assume "val = 0"
        with cur have "digLen = 1" by (simp add: dec_byte_def)
        with nz \<open>val = 0\<close> show False by simp
      qed
      then have "dec_byte (val * 10 + ?d) = dec_byte val @ [digit_char ?d]"
        using d small by (intro dec_byte_snoc) simp_all
      with cur \<open>in_range (CHR ''0'') c (CHR ''9'')\<close> show ?thesis
        by (simp add: digit_char_inverse)
    qed
    show ?thesis
    proof (rule Cons.IH [OF run, of "pre @ [c]" "cur @ [c]"])
      show "s = (pre @ [c]) @ cs" using Cons.prems(2) by simp
      show "i + 1 = length (pre @ [c])" using Cons.prems(3) by simp
      show "length flds = 4" by (rule Cons.prems(4))
      show "pos \<le> 3" by (rule Cons.prems(5))
      show "val * 10 + ?d \<le> 255" by (rule small)
      show "pre @ [c] = concat (map (\<lambda>f. dec_byte (unat f) @ ''.'') (take pos flds)) @ cur @ [c]"
        using Cons.prems(7) by simp
      show "digLen + 1 = 0 \<longrightarrow> cur @ [c] = [] \<and> val * 10 + ?d = 0" by simp
      show "digLen + 1 \<noteq> 0 \<longrightarrow> cur @ [c] = dec_byte (val * 10 + ?d) \<and>
          digLen + 1 = length (cur @ [c])"
        using cur' by blast
      show "digLen + 1 = 0 \<longrightarrow> 0 < pos \<longrightarrow> cs \<noteq> []" by simp
    qed
  next
    case False
    with Cons.prems(1) have dot: "c = CHR ''.''"
      by (simp split: if_splits)
    from Cons.prems(1) False dot have chk: "i \<noteq> 0" "i \<noteq> length s - 1"
      "s ! (i - 1) \<noteq> CHR ''.''" "pos \<noteq> 3"
      and run: "parseIPv4_loop s cs (i + 1) 0 (pos + 1) 0 (flds[pos := of_nat val]) = Some r"
      by (simp_all split: if_splits)
    from chk(1) Cons.prems(3) have pre_ne: "pre \<noteq> []" by auto
    then have "s ! (i - 1) = last pre"
      using Cons.prems(2,3) by (simp add: nth_append last_conv_nth)
    with chk(3) have last_pre: "last pre \<noteq> CHR ''.''" by simp
    have dig: "digLen \<noteq> 0"
    proof
      assume "digLen = 0"
      with Cons.prems(8) have "cur = []" by simp
      with Cons.prems(7) have pre: "pre = concat (map (\<lambda>f. dec_byte (unat f) @ ''.'') (take pos flds))"
        by simp
      show False
      proof (cases "take pos flds" rule: rev_cases)
        case Nil
        with pre pre_ne show False by simp
      next
        case (snoc fs f)
        with pre have "last pre = CHR ''.''" by simp
        with last_pre show False by simp
      qed
    qed
    with Cons.prems(9) have cur: "cur = dec_byte val" by simp
    from chk(4) Cons.prems(5) have pos: "pos < 3" by simp
    with Cons.prems(4) have take': "take (Suc pos) (flds[pos := of_nat val]) =
        take pos flds @ [of_nat val]"
      by (simp add: take_Suc_conv_app_nth)
    from chk(2) Cons.prems(2,3) have rest: "cs \<noteq> []" by auto
    show ?thesis
    proof (rule Cons.IH [OF run, of "pre @ [c]" "[]"])
      show "s = (pre @ [c]) @ cs" using Cons.prems(2) by simp
      show "i + 1 = length (pre @ [c])" using Cons.prems(3) by simp
      show "length (flds[pos := of_nat val]) = 4" using Cons.prems(4) by simp
      show "pos + 1 \<le> 3" using pos by simp
      show "(0::nat) \<le> 255" by simp
      show "pre @ [c] =
          concat (map (\<lambda>f. dec_byte (unat f) @ ''.'') (take (pos + 1) (flds[pos := of_nat val]))) @ []"
        using Cons.prems(7,6) by (simp add: take' cur dot unat_byte_of_nat)
      show "(0::nat) = 0 \<longrightarrow> [] = [] \<and> (0::nat) = 0" by simp
      show "(0::nat) \<noteq> 0 \<longrightarrow> [] = dec_byte 0 \<and> 0 = length ([] :: string)" by simp
      show "(0::nat) = 0 \<longrightarrow> 0 < pos + 1 \<longrightarrow> cs \<noteq> []" using rest by simp
    qed
  qed
qed

lemma parseIPv4_Some_iff:
  "parseIPv4 s = Some r \<longleftrightarrow> (\<exists>a b c d. s = dotted_quad a b c d \<and> r = [a, b, c, d])"
proof
  assume "parseIPv4 s = Some r"
  then have "parseIPv4_loop s s 0 0 0 0 [0, 0, 0, 0] = Some r"
    by (simp add: parseIPv4_def)
  then show "\<exists>a b c d. s = dotted_quad a b c d \<and> r = [a, b, c, d]"
    by (rule parseIPv4_loop_sound [where pre = "[]" and cur = "[]"]) simp_all
next
  assume "\<exists>a b c d. s = dotted_quad a b c d \<and> r = [a, b, c, d]"
  then show "parseIPv4 s = Some r"
    by (auto simp: parseIPv4_dotted_quad)
qed

section \<open>Properties of destination resolution\<close>

lemma ParseAddr_scan_no_colon:
  assumes "CHR '':'' \<notin> set cs"
  shows "ParseAddr_scan s cs = None \<or>
    ParseAddr_scan s cs = map_option (\<lambda>flds. (v4InV6Prefix @ flds, [])) (parseIPv4 s)"
  using assms by (induction cs) auto

lemma ParseAddr_scan_digits:
  assumes "list_all (\<lambda>c. c \<noteq> CHR ''.'' \<and> c \<noteq> CHR '':'' \<and> c \<noteq> CHR ''%'') ds"
  shows "ParseAddr_scan s (ds @ CHR ''.'' # rest) =
    map_option (\<lambda>flds. (v4InV6Prefix @ flds, [])) (parseIPv4 s)"
  using assms by (induction ds) auto

lemma digit_char_plain:
  assumes "d < 10"
  shows "digit_char d \<noteq> CHR ''.'' \<and> digit_char d \<noteq> CHR '':'' \<and> digit_char d \<noteq> CHR ''%''"
proof -
  have "(of_char (digit_char d) :: nat) \<noteq> of_char c"
    if "c = CHR ''.'' \<or> c = CHR '':'' \<or> c = CHR ''%''" for c
    using that assms by (auto simp: of_char_digit_char)
  then show ?thesis by fastforce
qed

lemma dec_byte_plain:
  "v \<le> 255 \<Longrightarrow> list_all (\<lambda>c. c \<noteq> CHR ''.'' \<and> c \<noteq> CHR '':'' \<and> c \<noteq> CHR ''%'') (dec_byte v)"
  by (simp add: dec_byte_def digit_char_plain)

lemma ParseIP_dotted_quad: "ParseIP (dotted_quad a b c d) = Some (IPv4 a b c d)"
proof -
  let ?s = "dotted_quad a b c d"
  have "unat a \<le> 255"
    using unsigned_less [of a, where 'a = nat] by simp
  then have "ParseAddr_scan ?s (dec_byte (unat a) @ CHR ''.'' #
      (dec_byte (unat b) @ ''.'' @ dec_byte (unat c) @ ''.'' @ dec_byte (unat d))) =
    map_option (\<lambda>flds. (v4InV6Prefix @ flds, [])) (parseIPv4 ?s)"
    by (intro ParseAddr_scan_digits dec_byte_plain)
  then have "ParseAddr ?s = Some (v4InV6Prefix @ [a, b, c, d], [])"
    by (simp add: ParseAddr_def parseIPv4_dotted_quad) (simp add: dotted_quad_def)
  then show ?thesis
    by (simp add: ParseIP_def IPv4_def)
qed

lemma ParseIP_no_colon:
  assumes "CHR '':'' \<notin> set s" "ParseIP s = Some ip"
  shows "\<exists>a b c d. s = dotted_quad a b c d \<and> ip = IPv4 a b c d"
proof -
  from assms(2) have a: "ParseAddr_scan s s = Some (ip, [])"
    by (auto simp: ParseIP_def ParseAddr_def split: option.splits if_splits)
  with ParseAddr_scan_no_colon [OF assms(1), of s]
  have "map_option (\<lambda>flds. (v4InV6Prefix @ flds, [] :: string)) (parseIPv4 s) = Some (ip, [])"
    by simp
  then obtain flds where "parseIPv4 s = Some flds" "ip = v4InV6Prefix @ flds"
    by (cases "parseIPv4 s") auto
  then show ?thesis
    by (auto simp: parseIPv4_Some_iff IPv4_def)
qed

text \<open>
  Claim C4, as the code has it. \<open>getRAddr\<close> returns 255.255.255.255 for the empty text
  and the address of every strict dotted quad. A non-empty text without a colon is accepted
  exactly when it is a strict dotted quad (so the address returned prints back as the
  text); a text with a colon is accepted exactly when \<open>net.ParseIP\<close> accepts it, as an IPv6
  literal. Every failure is the "invalid remote address" error carrying the text; no
  default address is ever substituted.
\<close>

theorem getRAddr_resolves:
  "getRAddr [] = Inr (IPv4 255 255 255 255) \<and>
   getRAddr (dotted_quad a b c d) = Inr (IPv4 a b c d) \<and>
   (CHR '':'' \<notin> set addr \<longrightarrow>
      (getRAddr addr = Inr ip \<longleftrightarrow>
         addr = [] \<and> ip = IPv4 255 255 255 255 \<or>
         (\<exists>a b c d. addr = dotted_quad a b c d \<and> ip = IPv4 a b c d))) \<and>
   (CHR '':'' \<in> set addr \<longrightarrow> (getRAddr addr = Inr ip \<longleftrightarrow> ParseIP addr = Some ip)) \<and>
   (\<forall>e. getRAddr addr = Inl e \<longrightarrow> addr \<noteq> [] \<and> e = InvalidRemoteAddress addr)"
  (is "?empty \<and> ?quad \<and> ?plain \<and> ?colon \<and> ?error")
proof -
  have ne: "dotted_quad a b c d \<noteq> []" for a b c d
    by (simp add: dotted_quad_def dec_byte_nonempty)
  have body: "getRAddr addr =
      (case ParseIP addr of None \<Rightarrow> Inl (InvalidRemoteAddress addr) | Some rAddr \<Rightarrow> Inr rAddr)"
    if "addr \<noteq> []" for addr
    using that by (simp add: getRAddr_def)
  have "?empty"
    by (simp add: getRAddr_def)
  moreover have quad: "getRAddr (dotted_quad a b c d) = Inr (IPv4 a b c d)" for a b c d
    by (simp add: body [OF ne] ParseIP_dotted_quad)
  moreover have "?plain"
  proof (intro impI iffI)
    assume "CHR '':'' \<notin> set addr" "getRAddr addr = Inr ip"
    show "addr = [] \<and> ip = IPv4 255 255 255 255 \<or>
        (\<exists>a b c d. addr = dotted_quad a b c d \<and> ip = IPv4 a b c d)"
    proof (cases "addr = []")
      case True
      with \<open>getRAddr addr = Inr ip\<close> show ?thesis
        by (simp add: getRAddr_def)
    next
      case False
      with \<open>getRAddr addr = Inr ip\<close> have "ParseIP addr = Some ip"
        by (simp add: body split: option.splits)
      with \<open>CHR '':'' \<notin> set addr\<close> show ?thesis
        using ParseIP_no_colon by blast
    qed
  next
    assume "addr = [] \<and> ip = IPv4 255 255 255 255 \<or>
        (\<exists>a b c d. addr = dotted_quad a b c d \<and> ip = IPv4 a b c d)"
    then show "getRAddr addr = Inr ip"
    proof
      assume "addr = [] \<and> ip = IPv4 255 255 255 255"
      then show ?thesis by (simp add: getRAddr_def)
    next
      assume "\<exists>a b c d. addr = dotted_quad a b c d \<and> ip = IPv4 a b c d"
      then show ?thesis using quad by blast
    qed
  qed
  moreover have "?colon"
  proof
    assume "CHR '':'' \<in> set addr"
    then have "addr \<noteq> []" by auto
    then show "getRAddr addr = Inr ip \<longleftrightarrow> ParseIP addr = Some ip"
      by (simp add: body split: option.splits)
  qed
  moreover have "?error"
    by (simp add: getRAddr_def split: if_splits option.splits)
  ultimately show ?thesis
    using quad by blast
qed

lemma zero_address: "replicate 16 (0 :: byte) = [0, 0, 0, 0, 0, 0, 0, 0, 0, 0, 0, 0, 0, 0, 0, 0]"
  by (simp add: numeral_eq_Suc)

lemma hex_group_1: "hex_group ''1'' 0 0 = Some (1, 1)"
  by (simp add: in_range_def)

lemma parseIPv6_loop_1:
  "parseIPv6_loop ''1'' 0 [0, 0, 0, 0, 0, 0, 0, 0, 0, 0, 0, 0, 0, 0, 0, 0] 0 =
    Some ([], 2, [0, 1, 0, 0, 0, 0, 0, 0, 0, 0, 0, 0, 0, 0, 0, 0], 0)"
  by (subst parseIPv6_loop.simps) (simp add: in_range_def)

lemma expand_ellipsis_1:
  "expand_ellipsis [0, 1, 0, 0, 0, 0, 0, 0, 0, 0, 0, 0, 0, 0, 0, 0] 2 0 =
    [0, 0, 0, 0, 0, 0, 0, 0, 0, 0, 0, 0, 0, 0, 0, 1]"
  by (simp add: expand_ellipsis_def upt_conv_Cons Let_def)

lemma parseIPv6_loopback:
  "parseIPv6 ''::1'' = Some ([0, 0, 0, 0, 0, 0, 0, 0, 0, 0, 0, 0, 0, 0, 0, 1], [])"
  by (simp add: parseIPv6_def IndexByteString_def zero_address parseIPv6_loop_1
      expand_ellipsis_1 Let_def del: parseIPv6_loop.simps)

text \<open>
  Claim C4 as stated says an IPv6 literal is refused. The loopback literal \<open>::1\<close> is not
  a dotted quad, and \<open>getRAddr\<close> returns its sixteen bytes.
\<close>

theorem getRAddr_accepts_IPv6_literal:
  "getRAddr ''::1'' = Inr [0, 0, 0, 0, 0, 0, 0, 0, 0, 0, 0, 0, 0, 0, 0, 1] \<and>
   parseIPv4 ''::1'' = None"
  by (simp add: getRAddr_def ParseIP_def ParseAddr_def parseIPv6_loopback parseIPv4_def
      in_range_def)

lemma dotted_quad_example: "dotted_quad 192 168 1 255 = ''192.168.1.255''"
  by (simp add: dotted_quad_def dec_byte_def digit_char_def char_of_eq_iff)

theorem getRAddr_resolves_witness:
  "CHR '':'' \<notin> set ''192.168.1.255'' \<and>
   getRAddr ''192.168.1.255'' = Inr (IPv4 192 168 1 255) \<and>
   (\<exists>a b c d. ''192.168.1.255'' = dotted_quad a b c d \<and> IPv4 192 168 1 255 = IPv4 a b c d)"
proof -
  note run = getRAddr_resolves [of 192 168 1 255 "''192.168.1.255''" "IPv4 192 168 1 255"]
  have plain: "CHR '':'' \<notin> set ''192.168.1.255''"
    by simp
  from run have "getRAddr (dotted_quad 192 168 1 255) = Inr (IPv4 192 168 1 255)"
    by (rule conjunct2 [THEN conjunct1])
  then have ok: "getRAddr ''192.168.1.255'' = Inr (IPv4 192 168 1 255)"
    by (simp only: dotted_quad_example)
  from run have "CHR '':'' \<notin> set ''192.168.1.255'' \<longrightarrow>
      (getRAddr ''192.168.1.255'' = Inr (IPv4 192 168 1 255) \<longleftrightarrow>
         ''192.168.1.255'' = [] \<and> IPv4 192 168 1 255 = IPv4 255 255 255 255 \<or>
         (\<exists>a b c d. ''192.168.1.255'' = dotted_quad a b c d \<and>
            IPv4 192 168 1 255 = IPv4 a b c d))"
    by (rule conjunct2 [THEN conjunct2, THEN conjunct1])
  with plain ok have "\<exists>a b c d. ''192.168.1.255'' = dotted_quad a b c d \<and>
      IPv4 192 168 1 255 = IPv4 a b c d"
    by simp
  with plain ok show ?thesis
    by (simp only: simp_thms)
qed

section \<open>The package's tests and the specification's scenarios, on the model\<close>

text \<open>
  The cases of \<open>magic_test.go\<close> (\<open>TestWriteMAC\<close>, \<open>TestWriteMACPayloadContent\<close>,
  \<open>TestMACFormatVariations\<close>, \<open>TestGetAddr\<close>, \<open>TestIPBroadcastFormats\<close>, \<open>TestGetPort\<close>,
  \<open>TestSendMagicValidation\<close>, \<open>TestErrorWrapping\<close>) and the end-to-end scenarios of the
  specification, evaluated on the embedding: each gives what the test expects.
\<close>

lemma test_WriteMAC_valid:
  "length (payload (snd (WriteMAC (writeHeader new_Packet) ''00:11:22:33:44:55''))) = 102"
  "length (payload (snd (WriteMAC (writeHeader new_Packet) ''00-11-22-33-44-55''))) = 102"
  "length (payload (snd (WriteMAC (writeHeader new_Packet) ''AA:BB:CC:DD:EE:FF''))) = 102"
  "fst (WriteMAC (writeHeader new_Packet) ''00:00:00:00:00:00'') = None"
  "fst (WriteMAC (writeHeader new_Packet) ''ff:ff:ff:ff:ff:ff'') = None"
  "fst (WriteMAC (writeHeader new_Packet) ''01:23:45:67:89:ab'') = None"
  "fst (WriteMAC (writeHeader new_Packet) ''01-23-45-67-89-ab'') = None"
  by (simp_all add: WriteMAC_Inr ParseMAC_mac48 mac48_text_def is_hex_def in_range_def
      writeHeader_payload length_concat sum_list_replicate mac48_octets_length
      new_Packet_def)

lemma test_WriteMAC_invalid:
  "fst (WriteMAC (writeHeader new_Packet) ''00:11:22:33:44'') \<noteq> None"
  "fst (WriteMAC (writeHeader new_Packet) '''') \<noteq> None"
  by (simp_all add: WriteMAC_def ParseMAC_def)

lemma test_TestWriteMACPayloadContent:
  "payload (snd (WriteMAC (writeHeader new_Packet) ''aa:bb:cc:dd:ee:ff'')) =
    replicate 6 0xFF @ concat (replicate 16 [0xaa, 0xbb, 0xcc, 0xdd, 0xee, 0xff])"
  by (simp add: WriteMAC_Inr ParseMAC_mac48 mac48_text_def is_hex_def in_range_def
      writeHeader_payload mac48_octets_def octet_def hexval_def new_Packet_def)

lemma test_GetAddr:
  "getRAddr '''' = Inr (IPv4 255 255 255 255)"
  "getRAddr ''255.255.255.255'' = Inr (IPv4 255 255 255 255)"
  "getRAddr ''192.168.1.100'' = Inr (IPv4 192 168 1 100)"
  "getRAddr ''192.168.0.255'' = Inr (IPv4 192 168 0 255)"
  "getRAddr ''10.0.0.255'' = Inr (IPv4 10 0 0 255)"
  "getRAddr ''256.256.256.256'' = Inl (InvalidRemoteAddress ''256.256.256.256'')"
  "getRAddr ''invalid.ip.address'' = Inl (InvalidRemoteAddress ''invalid.ip.address'')"
  by (simp_all add: getRAddr_def ParseIP_def ParseAddr_def parseIPv4_def in_range_def IPv4_def)

lemma test_GetPort:
  "getPort '''' = Inr 9"
  "getPort ''0'' = Inr 0"
  "getPort ''7'' = Inr 7"
  "getPort ''9'' = Inr 9"
  "getPort ''80'' = Inl (PortNotSupported 80)"
  "getPort ''abc'' = Inl (InvalidPort ''abc'' (NumError ''Atoi'' ''abc'' ErrSyntax))"
  by (simp_all add: getPort_def defaultPort_def Atoi_def intSize_def acceptedPorts_def
      syntaxError_def)

lemma test_SendMagic:
  "SendMagic nw ''00:11:22:33:44:55'' ''password'' ''255.255.255.255'' ''9'' =
    (Some PasswordNotSupported, [])"
  "SendMagic nw ''invalid'' [] ''255.255.255.255'' ''9'' =
    (Some (Wrapped ''write MAC address''
       (InvalidMAC ''invalid'' (AddrError ''invalid MAC address'' ''invalid''))), [])"
  "SendMagic nw ''invalid-mac'' [] ''255.255.255.255'' ''9'' =
    (Some (Wrapped ''write MAC address''
       (InvalidMAC ''invalid-mac'' (AddrError ''invalid MAC address'' ''invalid-mac''))), [])"
  by (simp_all add: SendMagic_password SendMagic_bad_MAC [OF short_text_rejected])

lemma scenario_default_send:
  "SendMagic ok_net ''00:11:22:33:44:55'' [] ''255.255.255.255'' ''9'' =
    (None,
     [DialUDP \<lparr>IP = IPv4 255 255 255 255, Port = 9\<rparr> None,
      ConnWrite \<lparr>IP = IPv4 255 255 255 255, Port = 9\<rparr>
        (replicate 6 0xFF @ concat (replicate 16 [0x00, 0x11, 0x22, 0x33, 0x44, 0x55])) None,
      ConnClose \<lparr>IP = IPv4 255 255 255 255, Port = 9\<rparr>])"
  "SendMagic ok_net ''00-11-22-33-44-55'' [] [] [] =
    SendMagic ok_net ''00:11:22:33:44:55'' [] ''255.255.255.255'' ''9''"
proof -
  have ok: "dial ok_net a = None" "conn_write ok_net a b = None" for a b
    by (simp_all add: ok_net_def)
  have hyphen: "ParseMAC ''00-11-22-33-44-55'' = Inr [0x00, 0x11, 0x22, 0x33, 0x44, 0x55]"
    by (simp add: ParseMAC_mac48 mac48_text_def is_hex_def in_range_def mac48_octets_def
        octet_def hexval_def)
  show one: "SendMagic ok_net ''00:11:22:33:44:55'' [] ''255.255.255.255'' ''9'' =
    (None,
     [DialUDP \<lparr>IP = IPv4 255 255 255 255, Port = 9\<rparr> None,
      ConnWrite \<lparr>IP = IPv4 255 255 255 255, Port = 9\<rparr>
        (replicate 6 0xFF @ concat (replicate 16 [0x00, 0x11, 0x22, 0x33, 0x44, 0x55])) None,
      ConnClose \<lparr>IP = IPv4 255 255 255 255, Port = 9\<rparr>])"
    by (simp add: SendMagic_built [OF ParseMAC_example_colon]
        SendUDP_dialled [OF test_GetAddr(2) test_GetPort(4)] ok)
  show "SendMagic ok_net ''00-11-22-33-44-55'' [] [] [] =
    SendMagic ok_net ''00:11:22:33:44:55'' [] ''255.255.255.255'' ''9''"
    unfolding one
    by (simp add: SendMagic_built [OF hyphen]
        SendUDP_dialled [OF getRAddr_empty getPort_empty] ok)
qed

end
